theory Spec2Isabelle
  imports Complex_Main "HOL-Library.AList" "HOL-Library.Sublist" "HOL-Library.Multiset"
    "HOL-Library.Word"
begin

section \<open>The insertion-ordered Map of the host language\<close>

text \<open>
  A JavaScript \<open>Map\<close> iterates its keys in insertion order, so it is an association
  list with distinct keys: \<open>Map.set\<close> overwrites the value of a present key in place
  and appends a new key at the end, \<open>Map.delete\<close> removes the key, and
  \<open>keys().next().value\<close> is the first key (\<open>undefined\<close> on an empty map).
\<close>

type_synonym ('k, 'v) js_map = "('k \<times> 'v) list"

definition Map_has :: "('k, 'v) js_map \<Rightarrow> 'k \<Rightarrow> bool" where
  "Map_has m k = (k \<in> fst ` set m)"

definition Map_get :: "('k, 'v) js_map \<Rightarrow> 'k \<Rightarrow> 'v option" where
  "Map_get m k = map_of m k"

definition Map_delete :: "('k, 'v) js_map \<Rightarrow> 'k \<Rightarrow> ('k, 'v) js_map" where
  "Map_delete m k = AList.delete k m"

definition Map_set :: "('k, 'v) js_map \<Rightarrow> 'k \<Rightarrow> 'v \<Rightarrow> ('k, 'v) js_map" where
  "Map_set m k v = AList.update k v m"

definition Map_keys :: "('k, 'v) js_map \<Rightarrow> 'k list" where
  "Map_keys m = map fst m"

section \<open>LRUCache (preset-loader.ts, lines 38-79)\<close>

text \<open>
  \<open>maxSize\<close> is a JavaScript number handed to the constructor unchecked; it is an
  \<open>int\<close> here, so that zero and negative capacities are inputs of the model.
  The value type of both instances (preset descriptors, audio buffers) has no
  \<open>undefined\<close>, so \<open>value !== undefined\<close> in \<open>get\<close> is exactly a hit.
\<close>

record ('k, 'v) LRUCache =
  maxSize :: int
  cache :: "('k, 'v) js_map"

definition LRU_new :: "int \<Rightarrow> ('k, 'v) LRUCache" where
  "LRU_new n = \<lparr>maxSize = n, cache = []\<rparr>"

definition LRU_has :: "('k, 'v) LRUCache \<Rightarrow> 'k \<Rightarrow> bool" where
  "LRU_has c k = Map_has (cache c) k"

definition LRU_size :: "('k, 'v) LRUCache \<Rightarrow> nat" where
  "LRU_size c = length (cache c)"

text \<open>\<open>get\<close> returns the value and, on a hit, moves the key to the end.\<close>

definition LRU_get :: "('k, 'v) LRUCache \<Rightarrow> 'k \<Rightarrow> 'v option \<times> ('k, 'v) LRUCache" where
  "LRU_get c k =
     (case Map_get (cache c) k of
        None \<Rightarrow> (None, c)
      | Some v \<Rightarrow> (Some v, c\<lparr>cache := Map_set (Map_delete (cache c) k) k v\<rparr>))"

text \<open>
  \<open>set\<close>: a present key is deleted first; otherwise, when \<open>size >= maxSize\<close>, the
  first key is deleted (on an empty map \<open>oldest\<close> is \<open>undefined\<close> and the delete
  removes nothing); then the pair is stored.
\<close>

definition LRU_set :: "('k, 'v) LRUCache \<Rightarrow> 'k \<Rightarrow> 'v \<Rightarrow> ('k, 'v) LRUCache" where
  "LRU_set c k v =
     (let m = cache c;
          m1 = (if Map_has m k then Map_delete m k
                else if int (length m) \<ge> maxSize c then
                  (case Map_keys m of [] \<Rightarrow> m | oldest # _ \<Rightarrow> Map_delete m oldest)
                else m)
      in c\<lparr>cache := Map_set m1 k v\<rparr>)"

definition LRU_clear :: "('k, 'v) LRUCache \<Rightarrow> ('k, 'v) LRUCache" where
  "LRU_clear c = c\<lparr>cache := []\<rparr>"

text \<open>The mutating operations of the class, and a run of them on a cache.\<close>

datatype ('k, 'v) cache_op = OpGet 'k | OpSet 'k 'v | OpClear

fun apply_cache_op :: "('k, 'v) LRUCache \<Rightarrow> ('k, 'v) cache_op \<Rightarrow> ('k, 'v) LRUCache" where
  "apply_cache_op c (OpGet k) = snd (LRU_get c k)"
| "apply_cache_op c (OpSet k v) = LRU_set c k v"
| "apply_cache_op c OpClear = LRU_clear c"

definition run_cache_ops :: "('k, 'v) LRUCache \<Rightarrow> ('k, 'v) cache_op list \<Rightarrow> ('k, 'v) LRUCache" where
  "run_cache_ops c ops = foldl apply_cache_op c ops"

definition set_all :: "('k, 'v) LRUCache \<Rightarrow> ('k \<times> 'v) list \<Rightarrow> ('k, 'v) LRUCache" where
  "set_all c kvs = foldl (\<lambda>c (k, v). LRU_set c k v) c kvs"

text \<open>The representation invariant of a cache built by the class: the keys of a
  \<open>Map\<close> are distinct.\<close>

definition cache_wf :: "('k, 'v) LRUCache \<Rightarrow> bool" where
  "cache_wf c = distinct (Map_keys (cache c))"


section \<open>Strings of the host language\<close>

text \<open>
  Strings are lists of characters; a character is a code unit below 256 (Latin-1), which
  covers the names of the catalogue. On these \<open>toLowerCase\<close> folds the letters
  \<open>A\<close> to \<open>Z\<close> and the accented capitals U+00C0 to U+00DE (U+00D7, the
  multiplication sign, apart) onto the character 32 places further; every other
  character is unchanged.
\<close>

definition upperCase :: "char list" where
  "upperCase = ''ABCDEFGHIJKLMNOPQRSTUVWXYZ'' @
       [CHR 0xC0, CHR 0xC1, CHR 0xC2, CHR 0xC3, CHR 0xC4, CHR 0xC5, CHR 0xC6, CHR 0xC7,
        CHR 0xC8, CHR 0xC9, CHR 0xCA, CHR 0xCB, CHR 0xCC, CHR 0xCD, CHR 0xCE, CHR 0xCF,
        CHR 0xD0, CHR 0xD1, CHR 0xD2, CHR 0xD3, CHR 0xD4, CHR 0xD5, CHR 0xD6, CHR 0xD8,
        CHR 0xD9, CHR 0xDA, CHR 0xDB, CHR 0xDC, CHR 0xDD, CHR 0xDE]"

definition lowerCase :: "char list" where
  "lowerCase = ''abcdefghijklmnopqrstuvwxyz'' @
       [CHR 0xE0, CHR 0xE1, CHR 0xE2, CHR 0xE3, CHR 0xE4, CHR 0xE5, CHR 0xE6, CHR 0xE7,
        CHR 0xE8, CHR 0xE9, CHR 0xEA, CHR 0xEB, CHR 0xEC, CHR 0xED, CHR 0xEE, CHR 0xEF,
        CHR 0xF0, CHR 0xF1, CHR 0xF2, CHR 0xF3, CHR 0xF4, CHR 0xF5, CHR 0xF6, CHR 0xF8,
        CHR 0xF9, CHR 0xFA, CHR 0xFB, CHR 0xFC, CHR 0xFD, CHR 0xFE]"

definition toLowerCase_char :: "char \<Rightarrow> char" where
  "toLowerCase_char c =
     (case map_of (zip upperCase lowerCase) c of
        Some l \<Rightarrow> l
      | None \<Rightarrow> c)"

definition toLowerCase :: "string \<Rightarrow> string" where
  "toLowerCase s = map toLowerCase_char s"

text \<open>\<open>s.replace(/_/g, ' ')\<close>: every underscore becomes a space.\<close>

definition replace_underscores :: "string \<Rightarrow> string" where
  "replace_underscores s = map (\<lambda>c. if c = CHR ''_'' then CHR '' '' else c) s"

definition startsWith :: "string \<Rightarrow> string \<Rightarrow> bool" where
  "startsWith s p = prefix p s"

definition includesStr :: "string \<Rightarrow> string \<Rightarrow> bool" where
  "includesStr s needle = sublist needle s"


fun lastIndexOf :: "string \<Rightarrow> char \<Rightarrow> int" where
  "lastIndexOf [] c = -1"
| "lastIndexOf (x # xs) c =
     (let i = lastIndexOf xs c in if i < 0 then (if x = c then 0 else -1) else i + 1)"

text \<open>\<open>dirOf\<close> (lines 83-86): the URL up to its last slash, the URL itself when the
  slash is missing or leading.\<close>

definition dirOf :: "string \<Rightarrow> string" where
  "dirOf url = (let idx = lastIndexOf url CHR ''/'' in if idx > 0 then take (nat idx) url else url)"

text \<open>\<open>baseUrl.replace(/\/$/, '')\<close> of the constructor: one trailing slash is removed.\<close>

definition trimTrailingSlash :: "string \<Rightarrow> string" where
  "trimTrailingSlash s = (if s \<noteq> [] \<and> last s = CHR ''/'' then butlast s else s)"

text \<open>
  \<open>needle.split(/\s+/)\<close>: the pieces between maximal runs of white space; a leading or
  trailing run gives an empty first or last piece, and the result is never empty.
  White space is what \<open>\s\<close> matches below 256: the space, the controls U+0009 to
  U+000D and the no-break space U+00A0; the flag records that the previous character
  was white space.
\<close>

definition is_space :: "char \<Rightarrow> bool" where
  "is_space c = (c \<in> set [CHR '' '', CHR 0x09, CHR 0x0A, CHR 0x0B, CHR 0x0C, CHR 0x0D, CHR 0xA0])"

fun split_ws_aux :: "string \<Rightarrow> bool \<Rightarrow> string \<Rightarrow> string list" where
  "split_ws_aux acc prev [] = [rev acc]"
| "split_ws_aux acc prev (c # cs) =
     (if is_space c then
        (if prev then split_ws_aux acc True cs else rev acc # split_ws_aux [] True cs)
      else split_ws_aux (c # acc) False cs)"

definition split_ws :: "string \<Rightarrow> string list" where
  "split_ws s = split_ws_aux [] False s"

section \<open>The catalogue documents (preset-types, as the loader uses them)\<close>

text \<open>
  Modelled from the spec: the type declarations of \<open>preset-types\<close>, which
  \<open>preset-loader.ts\<close> imports (index documents, entries, audio references, sampler
  configurations, preset descriptors). The records hold the fields the loader reads,
  with the types the spec's data model and the loader's uses give them; \<open>tags\<close> is
  the JSON array.
\<close>

datatype PresetCategory = synth | sampler | effect | composite

record PresetEntry =
  e_name :: string
  e_path :: string
  e_category :: PresetCategory
  e_tags :: "string list"
  e_gmProgram :: "int option"

record SubIndexEntry =
  s_name :: string
  s_path :: string
  s_description :: "string option"
  s_presetCount :: "nat option"

datatype IndexEntry = Index SubIndexEntry | Preset PresetEntry

record PresetIndex =
  i_name :: string
  i_description :: "string option"
  i_entries :: "IndexEntry list"

record LoadedLibrary =
  lib_index :: PresetIndex
  lib_baseUrl :: string

datatype AudioReference =
    External "string option" "string option" "string option"
  | ContentAddressed string string
  | InlineFile string
  | InlinePcm string nat

record SampleZone =
  z_audio :: AudioReference

record SamplerConfig =
  zones :: "SampleZone list"

record PresetNode =
  n_type :: string
  n_config :: "SamplerConfig option"

record PresetDescriptor =
  p_node :: "PresetNode option"

text \<open>
  An audio buffer: its channels hold 32-bit floats, kept as their bit patterns, since
  the loader only moves samples and never computes with them.
\<close>

record AudioBuffer =
  numberOfChannels :: nat
  ab_length :: nat
  sampleRate :: nat
  channelData :: "32 word list list"

record SearchOptions =
  o_library :: "string option"
  o_category :: "PresetCategory option"
  o_gmProgram :: "int option"
  o_tags :: "string list option"
  o_name :: "string option"

definition no_options :: SearchOptions where
  "no_options = \<lparr>o_library = None, o_category = None, o_gmProgram = None, o_tags = None,
     o_name = None\<rparr>"

section \<open>The collaborators: network, audio context, console\<close>

text \<open>
  \<open>fetch(url)\<close> either rejects (\<open>None\<close>) or resolves with a status and a body.
  Bodies are typed: reading a body as a document of another kind is an error of the
  call here, where the source casts the parsed JSON unchecked.
\<close>

datatype body = JsonIndex PresetIndex | JsonPreset PresetDescriptor | Bytes "8 word list"

record Response =
  status :: nat
  body :: body

type_synonym network = "string \<Rightarrow> Response option"

definition ok :: "Response \<Rightarrow> bool" where
  "ok r = (200 \<le> status r \<and> status r \<le> 299)"

text \<open>
  The audio context of the host: which sample rates \<open>createBuffer\<close> accepts, and what
  \<open>decodeAudioData\<close> makes of encoded bytes (\<open>None\<close>: it rejects them).
\<close>

record AudioContext =
  rateSupported :: "nat \<Rightarrow> bool"
  decodeAudioData :: "8 word list \<Rightarrow> AudioBuffer option"

datatype event = Fetched string | Decoded "8 word list" | Warned string

datatype error =
    NetworkError string
  | JsonError string
  | FetchRootIndexFailed nat string
  | FetchLibraryFailed nat string
  | FetchPresetFailed nat string
  | FetchSampleFailed nat string
  | LibraryNotFound string
  | PresetNotFound string
  | ProgramNotFound int
  | AudioContextNotSet
  | ExternalReferenceEmpty
  | InvalidCharacterError
  | RangeError
  | NotSupportedError
  | EncodingError

section \<open>PresetLoader: state, index loading (lines 120-297)\<close>

text \<open>
  The fields of the class, and \<open>trace\<close>: the calls made so far to the network, to
  \<open>decodeAudioData\<close> and to \<open>console.warn\<close>, in order. In this section an
  asynchronous method is a function from the state at the call to its outcome
  (\<open>Inl\<close>: the promise rejects) and the state at its end, for a call that no other
  task interleaves with: its awaited calls run to completion one after the other. The
  section on asynchronous execution gives the methods with their \<open>await\<close>s, as
  tasks that interleave.
\<close>

record PresetLoader =
  baseUrl :: string
  rootIndex :: "PresetIndex option"
  loadedLibraries :: "(string, LoadedLibrary) js_map"
  enabledLibraries :: "string list"
  presetCache :: "(string, PresetDescriptor) LRUCache"
  audioCache :: "(string, AudioBuffer) LRUCache"
  audioContext :: "AudioContext option"
  trace :: "event list"

definition new_PresetLoader :: "string \<Rightarrow> int option \<Rightarrow> int option \<Rightarrow> PresetLoader" where
  "new_PresetLoader url presetCacheSize audioCacheSize =
     \<lparr>baseUrl = trimTrailingSlash url, rootIndex = None, loadedLibraries = [],
      enabledLibraries = [],
      presetCache = LRU_new (case presetCacheSize of None \<Rightarrow> 128 | Some n \<Rightarrow> n),
      audioCache = LRU_new (case audioCacheSize of None \<Rightarrow> 256 | Some n \<Rightarrow> n),
      audioContext = None, trace = []\<rparr>"

definition setAudioContext :: "AudioContext \<Rightarrow> PresetLoader \<Rightarrow> PresetLoader" where
  "setAudioContext ctx st = st\<lparr>audioContext := Some ctx\<rparr>"

definition fetch :: "network \<Rightarrow> string \<Rightarrow> PresetLoader \<Rightarrow> Response option \<times> PresetLoader" where
  "fetch net url st = (net url, st\<lparr>trace := trace st @ [Fetched url]\<rparr>)"

definition fetches :: "PresetLoader \<Rightarrow> string list" where
  "fetches st = concat (map (\<lambda>ev. case ev of Fetched u \<Rightarrow> [u] | _ \<Rightarrow> []) (trace st))"

definition loadRootIndex :: "network \<Rightarrow> PresetLoader \<Rightarrow> (error + PresetIndex) \<times> PresetLoader" where
  "loadRootIndex net st =
     (case rootIndex st of
        Some rootIdx \<Rightarrow> (Inr rootIdx, st)
      | None \<Rightarrow>
          (let url = baseUrl st @ ''/index.json'' in
           case fetch net url st of
             (None, st1) \<Rightarrow> (Inl (NetworkError url), st1)
           | (Some resp, st1) \<Rightarrow>
               if \<not> ok resp then (Inl (FetchRootIndexFailed (status resp) url), st1)
               else (case body resp of
                       JsonIndex idx \<Rightarrow> (Inr idx, st1\<lparr>rootIndex := Some idx\<rparr>)
                     | _ \<Rightarrow> (Inl (JsonError url), st1))))"

text \<open>\<open>entries.find(e => e.type === 'index' && p(e))\<close>: the first sub-index entry
  that satisfies \<open>p\<close>.\<close>

fun find_index_entry :: "(SubIndexEntry \<Rightarrow> bool) \<Rightarrow> IndexEntry list \<Rightarrow> SubIndexEntry option" where
  "find_index_entry p [] = None"
| "find_index_entry p (Index e # es) = (if p e then Some e else find_index_entry p es)"
| "find_index_entry p (Preset _ # es) = find_index_entry p es"

definition hasSubIndexes :: "PresetIndex \<Rightarrow> bool" where
  "hasSubIndexes rootIdx = (\<exists>e \<in> set (i_entries rootIdx). case e of Index _ \<Rightarrow> True | Preset _ \<Rightarrow> False)"

text \<open>Lines 240-260: the exact name, then the normalised name, then the path prefix.\<close>

definition findLibEntry :: "PresetIndex \<Rightarrow> string \<Rightarrow> SubIndexEntry option" where
  "findLibEntry rootIdx name =
     (case find_index_entry (\<lambda>e. s_name e = name) (i_entries rootIdx) of
        Some e \<Rightarrow> Some e
      | None \<Rightarrow>
          (let normalized = replace_underscores name in
           case find_index_entry
                  (\<lambda>e. toLowerCase (replace_underscores (s_name e)) = toLowerCase normalized)
                  (i_entries rootIdx) of
             Some e \<Rightarrow> Some e
           | None \<Rightarrow> find_index_entry (\<lambda>e. startsWith (s_path e) (name @ ''/'')) (i_entries rootIdx)))"

definition loadLibrary :: "network \<Rightarrow> string \<Rightarrow> PresetLoader \<Rightarrow> (error + LoadedLibrary) \<times> PresetLoader" where
  "loadLibrary net name st =
     (case Map_get (loadedLibraries st) name of
        Some loaded \<Rightarrow> (Inr loaded, st)
      | None \<Rightarrow>
          (case loadRootIndex net st of
             (Inl err, st1) \<Rightarrow> (Inl err, st1)
           | (Inr rootIdx, st1) \<Rightarrow>
               if \<not> hasSubIndexes rootIdx \<and> i_name rootIdx = name then
                 (let loaded = \<lparr>lib_index = rootIdx, lib_baseUrl = baseUrl st1\<rparr>
                  in (Inr loaded, st1\<lparr>loadedLibraries := Map_set (loadedLibraries st1) name loaded\<rparr>))
               else
                 (case findLibEntry rootIdx name of
                    None \<Rightarrow> (Inl (LibraryNotFound name), st1)
                  | Some libEntry \<Rightarrow>
                      (let libUrl = baseUrl st1 @ ''/'' @ s_path libEntry in
                       case fetch net libUrl st1 of
                         (None, st2) \<Rightarrow> (Inl (NetworkError libUrl), st2)
                       | (Some resp, st2) \<Rightarrow>
                           if \<not> ok resp then (Inl (FetchLibraryFailed (status resp) libUrl), st2)
                           else (case body resp of
                                   JsonIndex idx \<Rightarrow>
                                     (let loaded = \<lparr>lib_index = idx, lib_baseUrl = dirOf libUrl\<rparr>;
                                          m1 = Map_set (loadedLibraries st2) name loaded;
                                          m2 = (if s_name libEntry \<noteq> name
                                                then Map_set m1 (s_name libEntry) loaded else m1)
                                      in (Inr loaded, st2\<lparr>loadedLibraries := m2\<rparr>))
                                 | _ \<Rightarrow> (Inl (JsonError libUrl), st2))))))"

text \<open>\<open>Set.add\<close> and \<open>Set.delete\<close> on the insertion-ordered set of enabled names.\<close>

definition Set_add :: "'a list \<Rightarrow> 'a \<Rightarrow> 'a list" where
  "Set_add xs x = (if x \<in> set xs then xs else xs @ [x])"

definition Set_delete :: "'a list \<Rightarrow> 'a \<Rightarrow> 'a list" where
  "Set_delete xs x = filter (\<lambda>y. y \<noteq> x) xs"

definition enableLibrary :: "network \<Rightarrow> string \<Rightarrow> PresetLoader \<Rightarrow> (error + unit) \<times> PresetLoader" where
  "enableLibrary net name st =
     (case loadLibrary net name st of
        (Inl err, st1) \<Rightarrow> (Inl err, st1)
      | (Inr _, st1) \<Rightarrow> (Inr (), st1\<lparr>enabledLibraries := Set_add (enabledLibraries st1) name\<rparr>))"

definition disableLibrary :: "string \<Rightarrow> PresetLoader \<Rightarrow> PresetLoader" where
  "disableLibrary name st = st\<lparr>enabledLibraries := Set_delete (enabledLibraries st) name\<rparr>"

section \<open>Search (lines 301-377)\<close>

fun presetEntries :: "IndexEntry list \<Rightarrow> PresetEntry list" where
  "presetEntries [] = []"
| "presetEntries (Preset e # es) = e # presetEntries es"
| "presetEntries (Index _ # es) = presetEntries es"

text \<open>The pairs \<open>{libraryName, entry}\<close>: for each enabled name in order, the preset
  entries of the library loaded under that name, if there is one.\<close>

definition getEnabledPresets :: "PresetLoader \<Rightarrow> (string \<times> PresetEntry) list" where
  "getEnabledPresets st =
     concat (map (\<lambda>libraryName.
                    case Map_get (loadedLibraries st) libraryName of
                      None \<Rightarrow> []
                    | Some lib \<Rightarrow>
                        map (\<lambda>entry. (libraryName, entry)) (presetEntries (i_entries (lib_index lib))))
                 (enabledLibraries st))"

text \<open>
  \<open>search\<close>: each option narrows the list when it is truthy (\<open>library\<close>, \<open>category\<close>,
  \<open>name\<close>; an empty string is not), defined (\<open>gmProgram\<close>), or a non-empty list
  (\<open>tags\<close>).
\<close>

definition search :: "PresetLoader \<Rightarrow> SearchOptions \<Rightarrow> PresetEntry list" where
  "search st options =
     (let results = getEnabledPresets st;
          results = (case o_library options of
                       None \<Rightarrow> results
                     | Some l \<Rightarrow>
                         if l = [] then results
                         else filter (\<lambda>r. toLowerCase (fst r) = toLowerCase l) results);
          results = (case o_category options of
                       None \<Rightarrow> results
                     | Some c \<Rightarrow> filter (\<lambda>r. e_category (snd r) = c) results);
          results = (case o_gmProgram options of
                       None \<Rightarrow> results
                     | Some g \<Rightarrow> filter (\<lambda>r. e_gmProgram (snd r) = Some g) results);
          results = (case o_tags options of
                       None \<Rightarrow> results
                     | Some ts \<Rightarrow>
                         if length ts > 0 then
                           (let searchTags = set (map toLowerCase ts)
                            in filter (\<lambda>r. \<exists>t \<in> set (e_tags (snd r)). toLowerCase t \<in> searchTags)
                                 results)
                         else results);
          results = (case o_name options of
                       None \<Rightarrow> results
                     | Some n \<Rightarrow>
                         if n = [] then results
                         else (let needle = toLowerCase n
                               in filter (\<lambda>r. includesStr (toLowerCase (e_name (snd r))) needle)
                                    results))
      in map snd results)"

text \<open>
  The score of one entry in \<open>fuzzySearch\<close>. The source computes
  \<open>(matchCount / words.length) * 30\<close> in floating point; the exact quotient is used
  here, which orders the entries of one query the same way.
\<close>

definition fuzzyScore :: "string \<Rightarrow> PresetEntry \<Rightarrow> rat" where
  "fuzzyScore needle entry =
     (let name = toLowerCase (e_name entry) in
      if name = needle then 100
      else if startsWith name needle then 80
      else if includesStr name needle then 60
      else if \<exists>t \<in> set (e_tags entry). includesStr (toLowerCase t) needle then 40
      else
        (let ws = split_ws needle;
             matchCount = length (filter (\<lambda>w. includesStr name w
                              \<or> (\<exists>t \<in> set (e_tags entry). includesStr (toLowerCase t) w)) ws)
         in (of_nat matchCount / of_nat (length ws)) * 30))"

text \<open>\<open>Array.prototype.sort\<close> is stable; with the comparator \<open>b.score - a.score\<close> it
  is the stable sort by decreasing score.\<close>

definition sort_by_score_desc :: "(PresetEntry \<times> rat) list \<Rightarrow> (PresetEntry \<times> rat) list" where
  "sort_by_score_desc xs = sort_key (\<lambda>s. - snd s) xs"

text \<open>\<open>xs.slice(0, limit)\<close> for an integer \<open>limit\<close>: a negative end counts from the
  end of the array.\<close>

definition slice0 :: "'a list \<Rightarrow> int \<Rightarrow> 'a list" where
  "slice0 xs limit =
     (if limit < 0 then take (nat (int (length xs) + limit)) xs else take (nat limit) xs)"

definition fuzzySearch :: "PresetLoader \<Rightarrow> string \<Rightarrow> int \<Rightarrow> PresetEntry list" where
  "fuzzySearch st query limit =
     (let needle = toLowerCase query;
          allPresets = getEnabledPresets st;
          scored = map (\<lambda>r. (snd r, fuzzyScore needle (snd r))) allPresets;
          scored = filter (\<lambda>s. snd s > 0) scored;
          scored = sort_by_score_desc scored;
          scored = slice0 scored limit
      in map fst scored)"

section \<open>Locating preset descriptors (lines 459-480)\<close>



section \<open>Audio decoding (lines 498-581)\<close>

unbundle bit_operations_syntax

text \<open>
  \<open>atob\<close> of the host: white space is dropped, one or two padding characters are removed
  from an input whose length is a multiple of four, an input of length one modulo four
  or with a character outside the alphabet is refused, and every four characters give
  three bytes (two or three trailing characters give one or two).
\<close>

definition base64_alphabet :: string where
  "base64_alphabet = ''ABCDEFGHIJKLMNOPQRSTUVWXYZabcdefghijklmnopqrstuvwxyz0123456789+/''"

fun position :: "'a \<Rightarrow> 'a list \<Rightarrow> nat option" where
  "position c [] = None"
| "position c (x # xs) = (if x = c then Some 0 else map_option Suc (position c xs))"

definition base64_value :: "char \<Rightarrow> nat option" where
  "base64_value c = position c base64_alphabet"

fun sextets_to_bytes :: "nat list \<Rightarrow> 8 word list" where
  "sextets_to_bytes (a # b # c # d # rest) =
     of_nat (a * 4 + b div 16) # of_nat ((b mod 16) * 16 + c div 4) # of_nat ((c mod 4) * 64 + d)
       # sextets_to_bytes rest"
| "sextets_to_bytes [a, b, c] = [of_nat (a * 4 + b div 16), of_nat ((b mod 16) * 16 + c div 4)]"
| "sextets_to_bytes [a, b] = [of_nat (a * 4 + b div 16)]"
| "sextets_to_bytes _ = []"

definition strip_padding :: "string \<Rightarrow> string" where
  "strip_padding d =
     (if length d mod 4 = 0 then
        (if length d \<ge> 2 \<and> drop (length d - 2) d = ''=='' then take (length d - 2) d
         else if d \<noteq> [] \<and> last d = CHR ''='' then butlast d
         else d)
      else d)"

definition atob :: "string \<Rightarrow> 8 word list option" where
  "atob data =
     (let d = filter (\<lambda>c. c \<notin> set [CHR 0x09, CHR 0x0A, CHR 0x0C, CHR 0x0D, CHR '' '']) data;
          d = strip_padding d
      in if length d mod 4 = 1 then None
         else map_option sextets_to_bytes (those (map base64_value d)))"

text \<open>\<open>new Float32Array(bytes.buffer)\<close>: four bytes, least significant first, are one
  sample; a byte length that is not a multiple of four is a \<open>RangeError\<close>.\<close>

fun float32_of_bytes :: "8 word list \<Rightarrow> 32 word list" where
  "float32_of_bytes (b0 # b1 # b2 # b3 # rest) =
     (ucast b0 OR push_bit 8 (ucast b1) OR push_bit 16 (ucast b2) OR push_bit 24 (ucast b3))
       # float32_of_bytes rest"
| "float32_of_bytes _ = []"

definition new_Float32Array :: "8 word list \<Rightarrow> error + 32 word list" where
  "new_Float32Array bytes =
     (if length bytes mod 4 \<noteq> 0 then Inl RangeError else Inr (float32_of_bytes bytes))"

text \<open>\<open>ctx.createBuffer\<close> and \<open>buffer.copyToChannel\<close> as the Web Audio API defines them:
  a buffer of silence, refused with \<open>NotSupportedError\<close> for no channel, no frame or
  a sample rate the context does not support; the copy overwrites the start of the
  channel.\<close>

definition createBuffer :: "AudioContext \<Rightarrow> nat \<Rightarrow> nat \<Rightarrow> nat \<Rightarrow> error + AudioBuffer" where
  "createBuffer ctx channels len rate =
     (if channels = 0 \<or> len = 0 \<or> \<not> rateSupported ctx rate then Inl NotSupportedError
      else Inr \<lparr>numberOfChannels = channels, ab_length = len, sampleRate = rate,
                channelData = replicate channels (replicate len 0)\<rparr>)"

definition copyToChannel :: "AudioBuffer \<Rightarrow> 32 word list \<Rightarrow> nat \<Rightarrow> AudioBuffer" where
  "copyToChannel buf src ch =
     buf\<lparr>channelData := (channelData buf)
            [ch := take (ab_length buf) src @ drop (length src) (channelData buf ! ch)]\<rparr>"

text \<open>The end of \<open>decodeAudio\<close> for the three encoded variants (lines 578-580).\<close>

definition decodeAndCache :: "AudioContext \<Rightarrow> string \<Rightarrow> 8 word list \<Rightarrow> PresetLoader
    \<Rightarrow> (error + AudioBuffer) \<times> PresetLoader" where
  "decodeAndCache ctx cacheKey arrayBuffer st =
     (let st1 = st\<lparr>trace := trace st @ [Decoded arrayBuffer]\<rparr> in
      case decodeAudioData ctx arrayBuffer of
        None \<Rightarrow> (Inl EncodingError, st1)
      | Some decoded \<Rightarrow> (Inr decoded, st1\<lparr>audioCache := LRU_set (audioCache st1) cacheKey decoded\<rparr>))"

definition fetchSample :: "network \<Rightarrow> AudioContext \<Rightarrow> string \<Rightarrow> string \<Rightarrow> PresetLoader
    \<Rightarrow> (error + AudioBuffer) \<times> PresetLoader" where
  "fetchSample net ctx cacheKey url st =
     (case fetch net url st of
        (None, st1) \<Rightarrow> (Inl (NetworkError url), st1)
      | (Some resp, st1) \<Rightarrow>
          if \<not> ok resp then (Inl (FetchSampleFailed (status resp) url), st1)
          else (case body resp of
                  Bytes arrayBuffer \<Rightarrow> decodeAndCache ctx cacheKey arrayBuffer st1
                | _ \<Rightarrow> (Inl EncodingError, st1)))"

definition decodeAudio :: "network \<Rightarrow> AudioReference \<Rightarrow> string option \<Rightarrow> PresetLoader
    \<Rightarrow> (error + AudioBuffer) \<times> PresetLoader" where
  "decodeAudio net ref presetUrl st =
     (case audioContext st of
        None \<Rightarrow> (Inl AudioContextNotSet, st)
      | Some ctx \<Rightarrow>
          (case ref of
             External path url sha256 \<Rightarrow>
               (case (case path of Some p \<Rightarrow> Some p | None \<Rightarrow> url) of
                  None \<Rightarrow> (Inl ExternalReferenceEmpty, st)
                | Some filePath \<Rightarrow>
                    if filePath = [] then (Inl ExternalReferenceEmpty, st)
                    else
                      (let sampleUrl =
                             (case presetUrl of
                                None \<Rightarrow> baseUrl st @ ''/'' @ filePath
                              | Some u \<Rightarrow> if u = [] then baseUrl st @ ''/'' @ filePath
                                          else dirOf u @ ''/'' @ filePath);
                           cacheKey = (case sha256 of Some h \<Rightarrow> h | None \<Rightarrow> sampleUrl)
                       in case LRU_get (audioCache st) cacheKey of
                            (Some buf, c1) \<Rightarrow> (Inr buf, st\<lparr>audioCache := c1\<rparr>)
                          | (None, _) \<Rightarrow> fetchSample net ctx cacheKey sampleUrl st))
           | ContentAddressed sha256 codec \<Rightarrow>
               (case LRU_get (audioCache st) sha256 of
                  (Some buf, c1) \<Rightarrow> (Inr buf, st\<lparr>audioCache := c1\<rparr>)
                | (None, _) \<Rightarrow>
                    fetchSample net ctx sha256
                      (baseUrl st @ ''/samples/'' @ sha256 @ ''.'' @ codec) st)
           | InlineFile data \<Rightarrow>
               (let cacheKey = ''inline:'' @ take 32 data in
                case LRU_get (audioCache st) cacheKey of
                  (Some buf, c1) \<Rightarrow> (Inr buf, st\<lparr>audioCache := c1\<rparr>)
                | (None, _) \<Rightarrow>
                    (case atob data of
                       None \<Rightarrow> (Inl InvalidCharacterError, st)
                     | Some binary \<Rightarrow> decodeAndCache ctx cacheKey binary st))
           | InlinePcm data rate \<Rightarrow>
               (let cacheKey = ''pcm:'' @ take 32 data in
                case LRU_get (audioCache st) cacheKey of
                  (Some buf, c1) \<Rightarrow> (Inr buf, st\<lparr>audioCache := c1\<rparr>)
                | (None, _) \<Rightarrow>
                    (case atob data of
                       None \<Rightarrow> (Inl InvalidCharacterError, st)
                     | Some pcmBytes \<Rightarrow>
                         (case new_Float32Array pcmBytes of
                            Inl err \<Rightarrow> (Inl err, st)
                          | Inr pcmFloat \<Rightarrow>
                              (case createBuffer ctx 1 (length pcmFloat) rate of
                                 Inl err \<Rightarrow> (Inl err, st)
                               | Inr buf \<Rightarrow>
                                   (let pcmBuffer = copyToChannel buf pcmFloat 0
                                    in (Inr pcmBuffer,
                                        st\<lparr>audioCache := LRU_set (audioCache st) cacheKey pcmBuffer\<rparr>))))))))"

section \<open>Asynchronous execution\<close>

text \<open>
  An async function runs synchronously up to its first \<open>await\<close> and hands back a
  promise; what follows an \<open>await\<close> runs in a later turn of the event loop, on the
  state that the loader then has. A promise is a task: settled (\<open>Inl\<close>: rejected), or
  waiting, with the segment that runs when it is resumed and ends at the next
  \<open>await\<close> or at the end of the function. An async function maps the state in which
  it is called to the task it returns and the state it leaves at that moment.
\<close>

datatype 'a task = Done "error + 'a" | Wait "PresetLoader \<Rightarrow> 'a task \<times> PresetLoader"

type_synonym 'a async = "PresetLoader \<Rightarrow> 'a task \<times> PresetLoader"

text \<open>A task that nothing else interleaves with: it is resumed until it settles.\<close>

primrec run_task :: "'a task \<Rightarrow> PresetLoader \<Rightarrow> (error + 'a) \<times> PresetLoader" where
  "run_task (Done r) = (\<lambda>st. (r, st))"
| "run_task (Wait seg) = (\<lambda>st. case (map_prod run_task id \<circ> seg) st of (f, st1) \<Rightarrow> f st1)"

definition run :: "'a async \<Rightarrow> PresetLoader \<Rightarrow> (error + 'a) \<times> PresetLoader" where
  "run f st = (case f st of (t, st1) \<Rightarrow> run_task t st1)"

text \<open>
  What a task may settle to, whatever the states in which it is resumed: the
  outcomes it has over all interleavings with other tasks.
\<close>

inductive may_settle :: "'a task \<Rightarrow> error + 'a \<Rightarrow> bool" where
  settled_now: "may_settle (Done r) r"
| resumed: "may_settle (fst (seg st)) r \<Longrightarrow> may_settle (Wait seg) r"

text \<open>
  \<open>const x = await p; k x\<close>: the function is suspended until \<open>p\<close> has settled, and
  resumes in a later turn, also when \<open>p\<close> is settled already; a rejection of \<open>p\<close> is
  thrown at the \<open>await\<close>.
\<close>

primrec await_task :: "'a task \<Rightarrow> ('a \<Rightarrow> 'b async) \<Rightarrow> 'b task" where
  "await_task (Done r) =
     (\<lambda>k. Wait (\<lambda>st. case r of Inl err \<Rightarrow> (Done (Inl err), st) | Inr x \<Rightarrow> k x st))"
| "await_task (Wait seg) =
     (\<lambda>k. Wait (\<lambda>st. case (map_prod await_task id \<circ> seg) st of (f, st1) \<Rightarrow> (f k, st1)))"

text \<open>\<open>const x = await f(...); k x\<close>: the call runs \<open>f\<close> to its first \<open>await\<close>.\<close>

definition await_call :: "'a async \<Rightarrow> ('a \<Rightarrow> 'b async) \<Rightarrow> 'b async" where
  "await_call f k st = (case f st of (t, st1) \<Rightarrow> (await_task t k, st1))"

definition return :: "'a \<Rightarrow> 'a async" where
  "return x st = (Done (Inr x), st)"

definition throw :: "error \<Rightarrow> 'a async" where
  "throw err st = (Done (Inl err), st)"

text \<open>
  \<open>try { block } catch (err) { handler }\<close> in an async function: a rejection at any
  \<open>await\<close> of the block, or an exception before the first, runs the handler.
\<close>

primrec catching :: "'a task \<Rightarrow> (error \<Rightarrow> 'a async) \<Rightarrow> 'a async" where
  "catching (Done r) =
     (\<lambda>h st. case r of Inl err \<Rightarrow> h err st | Inr x \<Rightarrow> (Done (Inr x), st))"
| "catching (Wait seg) =
     (\<lambda>h st. (Wait (\<lambda>s. case (map_prod catching id \<circ> seg) s of (f, s1) \<Rightarrow> f h s1), st))"


text \<open>
  The promises of the collaborators (\<open>fetch\<close>, \<open>Response.json\<close>,
  \<open>Response.arrayBuffer\<close>, \<open>decodeAudioData\<close>) settle in a later turn, with an outcome
  that the call has fixed. The call itself is logged in the trace.
\<close>

definition settled_later :: "error + 'a \<Rightarrow> 'a task" where
  "settled_later r = Wait (\<lambda>st. (Done r, st))"

definition fetch_async :: "network \<Rightarrow> string \<Rightarrow> Response async" where
  "fetch_async net url st =
     (settled_later (case net url of None \<Rightarrow> Inl (NetworkError url) | Some resp \<Rightarrow> Inr resp),
      st\<lparr>trace := trace st @ [Fetched url]\<rparr>)"

definition json_index :: "string \<Rightarrow> Response \<Rightarrow> PresetIndex async" where
  "json_index url resp st =
     (settled_later (case body resp of JsonIndex idx \<Rightarrow> Inr idx | _ \<Rightarrow> Inl (JsonError url)), st)"


definition arrayBuffer :: "Response \<Rightarrow> 8 word list async" where
  "arrayBuffer resp st =
     (settled_later (case body resp of Bytes bytes \<Rightarrow> Inr bytes | _ \<Rightarrow> Inl EncodingError), st)"

definition decodeAudioData_async :: "AudioContext \<Rightarrow> 8 word list \<Rightarrow> AudioBuffer async" where
  "decodeAudioData_async ctx bytes st =
     (settled_later (case decodeAudioData ctx bytes of None \<Rightarrow> Inl EncodingError
                     | Some decoded \<Rightarrow> Inr decoded),
      st\<lparr>trace := trace st @ [Decoded bytes]\<rparr>)"

subsection \<open>\<open>Promise.all\<close>\<close>

text \<open>
  \<open>xs.map(async x => ...)\<close> calls the function on every element, in list order: every
  member runs to its first \<open>await\<close> before any of them is resumed.
\<close>

fun start_all :: "'a async list \<Rightarrow> PresetLoader \<Rightarrow> 'a task list \<times> PresetLoader" where
  "start_all [] st = ([], st)"
| "start_all (f # fs) st =
     (case f st of (t, st1) \<Rightarrow> (case start_all fs st1 of (ts, st2) \<Rightarrow> (t # ts, st2)))"

text \<open>
  The order in which the waiting members are resumed is the event loop's: it depends on
  when the network and the decoder answer. A schedule lists the members in the order of
  their turns; a turn of a settled member is void, and when the schedule is used up
  the members that still wait run to their end in list order. \<open>Promise.all\<close> rejects
  with the rejection that comes first in time (among members rejected when it is
  called, the first of the list), and otherwise resolves to the values in list order.
  The members are not cancelled by a rejection; the task of \<open>Promise.all\<close> is followed
  here until all of them have settled, so that the state it leaves holds their effects.
\<close>

definition first_rejection :: "'a task list \<Rightarrow> error option" where
  "first_rejection ts =
     (case concat (map (\<lambda>t. case t of Done (Inl err) \<Rightarrow> [err] | _ \<Rightarrow> []) ts) of
        [] \<Rightarrow> None
      | err # _ \<Rightarrow> Some err)"

definition note_rejection :: "error option \<Rightarrow> error + 'a \<Rightarrow> error option" where
  "note_rejection rejected r =
     (case rejected of
        Some err \<Rightarrow> Some err
      | None \<Rightarrow> (case r of Inl err \<Rightarrow> Some err | Inr _ \<Rightarrow> None))"

definition settled :: "'a task \<Rightarrow> bool" where
  "settled t = (case t of Done _ \<Rightarrow> True | Wait _ \<Rightarrow> False)"

definition all_result :: "error option \<Rightarrow> (error + 'a) list \<Rightarrow> error + 'a list" where
  "all_result rejected rs =
     (case rejected of
        Some err \<Rightarrow> Inl err
      | None \<Rightarrow> Inr (concat (map (\<lambda>r. case r of Inl _ \<Rightarrow> [] | Inr x \<Rightarrow> [x]) rs)))"

text \<open>One turn of member \<open>i\<close>: its next segment runs, and a rejection is noted.\<close>

definition resume :: "nat \<Rightarrow> error option \<times> 'a task list \<Rightarrow> PresetLoader
    \<Rightarrow> (error option \<times> 'a task list) \<times> PresetLoader" where
  "resume i pool st =
     (if i < length (snd pool) then
        (case snd pool ! i of
           Done _ \<Rightarrow> (pool, st)
         | Wait seg \<Rightarrow>
             (case seg st of
                (t, st1) \<Rightarrow>
                  ((case t of Done r \<Rightarrow> note_rejection (fst pool) r | Wait _ \<Rightarrow> fst pool,
                    (snd pool)[i := t]), st1)))
      else (pool, st))"

text \<open>Running a task to its end, with what follows.\<close>

primrec finish_task :: "'a task \<Rightarrow> (error + 'a \<Rightarrow> 'b task) \<Rightarrow> 'b task" where
  "finish_task (Done r) = (\<lambda>k. k r)"
| "finish_task (Wait seg) =
     (\<lambda>k. Wait (\<lambda>st. case (map_prod finish_task id \<circ> seg) st of (f, st1) \<Rightarrow> (f k, st1)))"

primrec finish_all :: "'a task list \<Rightarrow> error option \<Rightarrow> (error + 'a) list \<Rightarrow> 'a list task" where
  "finish_all [] = (\<lambda>rejected rs. Done (all_result rejected rs))"
| "finish_all (t # ts) =
     (\<lambda>rejected rs. finish_task t (\<lambda>r. finish_all ts (note_rejection rejected r) (rs @ [r])))"

primrec Promise_all_from :: "nat list \<Rightarrow> error option \<times> 'a task list \<Rightarrow> 'a list task" where
  "Promise_all_from [] = (\<lambda>pool. finish_all (snd pool) (fst pool) [])"
| "Promise_all_from (i # schedule) =
     (\<lambda>pool. if list_all settled (snd pool) then finish_all (snd pool) (fst pool) []
             else Wait (\<lambda>st. case resume i pool st of
                               (pool1, st1) \<Rightarrow> (Promise_all_from schedule pool1, st1)))"

definition Promise_all :: "nat list \<Rightarrow> 'a task list \<Rightarrow> 'a list task" where
  "Promise_all schedule promises = Promise_all_from schedule (first_rejection promises, promises)"

subsection \<open>The asynchronous methods\<close>

text \<open>
  The methods of the loader with their \<open>await\<close>s. For the index and for one audio
  reference they are given twice: above as the function from the state at the call to
  the outcome and the state at the end, and here as tasks, whose uninterrupted run is
  that function.
\<close>

definition loadRootIndex_async :: "network \<Rightarrow> PresetIndex async" where
  "loadRootIndex_async net st =
     (case rootIndex st of
        Some rootIdx \<Rightarrow> return rootIdx st
      | None \<Rightarrow>
          (let url = baseUrl st @ ''/index.json'' in
           await_call (fetch_async net url)
             (\<lambda>resp. if \<not> ok resp then throw (FetchRootIndexFailed (status resp) url)
                      else await_call (json_index url resp)
                             (\<lambda>idx st2. return idx (st2\<lparr>rootIndex := Some idx\<rparr>))) st))"

definition loadLibrary_async :: "network \<Rightarrow> string \<Rightarrow> LoadedLibrary async" where
  "loadLibrary_async net name st =
     (case Map_get (loadedLibraries st) name of
        Some loaded \<Rightarrow> return loaded st
      | None \<Rightarrow>
          await_call (loadRootIndex_async net)
            (\<lambda>rootIdx st1.
               if \<not> hasSubIndexes rootIdx \<and> i_name rootIdx = name then
                 (let loaded = \<lparr>lib_index = rootIdx, lib_baseUrl = baseUrl st1\<rparr>
                  in return loaded (st1\<lparr>loadedLibraries := Map_set (loadedLibraries st1) name loaded\<rparr>))
               else
                 (case findLibEntry rootIdx name of
                    None \<Rightarrow> throw (LibraryNotFound name) st1
                  | Some libEntry \<Rightarrow>
                      (let libUrl = baseUrl st1 @ ''/'' @ s_path libEntry in
                       await_call (fetch_async net libUrl)
                         (\<lambda>resp. if \<not> ok resp then throw (FetchLibraryFailed (status resp) libUrl)
                                  else await_call (json_index libUrl resp)
                                         (\<lambda>idx st2.
                                            let loaded = \<lparr>lib_index = idx, lib_baseUrl = dirOf libUrl\<rparr>;
                                                m1 = Map_set (loadedLibraries st2) name loaded;
                                                m2 = (if s_name libEntry \<noteq> name
                                                      then Map_set m1 (s_name libEntry) loaded else m1)
                                            in return loaded (st2\<lparr>loadedLibraries := m2\<rparr>))) st1))) st)"

definition enableLibrary_async :: "network \<Rightarrow> string \<Rightarrow> unit async" where
  "enableLibrary_async net name =
     await_call (loadLibrary_async net name)
       (\<lambda>_ st1. return () (st1\<lparr>enabledLibraries := Set_add (enabledLibraries st1) name\<rparr>))"







text \<open>\<open>decodeAudio\<close> (lines 502-581) and \<open>decodeSamplerZones\<close> (lines 586-599).\<close>

definition decodeAndCache_async :: "AudioContext \<Rightarrow> string \<Rightarrow> 8 word list \<Rightarrow> AudioBuffer async" where
  "decodeAndCache_async ctx cacheKey bytes =
     await_call (decodeAudioData_async ctx bytes)
       (\<lambda>decoded st. return decoded (st\<lparr>audioCache := LRU_set (audioCache st) cacheKey decoded\<rparr>))"

definition fetchSample_async :: "network \<Rightarrow> AudioContext \<Rightarrow> string \<Rightarrow> string \<Rightarrow> AudioBuffer async" where
  "fetchSample_async net ctx cacheKey url =
     await_call (fetch_async net url)
       (\<lambda>resp. if \<not> ok resp then throw (FetchSampleFailed (status resp) url)
                else await_call (arrayBuffer resp) (decodeAndCache_async ctx cacheKey))"

definition decodeAudio_async :: "network \<Rightarrow> AudioReference \<Rightarrow> string option \<Rightarrow> AudioBuffer async" where
  "decodeAudio_async net ref presetUrl st =
     (case audioContext st of
        None \<Rightarrow> throw AudioContextNotSet st
      | Some ctx \<Rightarrow>
          (case ref of
             External path url sha256 \<Rightarrow>
               (case (case path of Some p \<Rightarrow> Some p | None \<Rightarrow> url) of
                  None \<Rightarrow> throw ExternalReferenceEmpty st
                | Some filePath \<Rightarrow>
                    if filePath = [] then throw ExternalReferenceEmpty st
                    else
                      (let sampleUrl =
                             (case presetUrl of
                                None \<Rightarrow> baseUrl st @ ''/'' @ filePath
                              | Some u \<Rightarrow> if u = [] then baseUrl st @ ''/'' @ filePath
                                          else dirOf u @ ''/'' @ filePath);
                           cacheKey = (case sha256 of Some h \<Rightarrow> h | None \<Rightarrow> sampleUrl)
                       in case LRU_get (audioCache st) cacheKey of
                            (Some buf, c1) \<Rightarrow> return buf (st\<lparr>audioCache := c1\<rparr>)
                          | (None, _) \<Rightarrow> fetchSample_async net ctx cacheKey sampleUrl st))
           | ContentAddressed sha256 codec \<Rightarrow>
               (case LRU_get (audioCache st) sha256 of
                  (Some buf, c1) \<Rightarrow> return buf (st\<lparr>audioCache := c1\<rparr>)
                | (None, _) \<Rightarrow>
                    fetchSample_async net ctx sha256
                      (baseUrl st @ ''/samples/'' @ sha256 @ ''.'' @ codec) st)
           | InlineFile data \<Rightarrow>
               (let cacheKey = ''inline:'' @ take 32 data in
                case LRU_get (audioCache st) cacheKey of
                  (Some buf, c1) \<Rightarrow> return buf (st\<lparr>audioCache := c1\<rparr>)
                | (None, _) \<Rightarrow>
                    (case atob data of
                       None \<Rightarrow> throw InvalidCharacterError st
                     | Some binary \<Rightarrow> decodeAndCache_async ctx cacheKey binary st))
           | InlinePcm data rate \<Rightarrow>
               (let cacheKey = ''pcm:'' @ take 32 data in
                case LRU_get (audioCache st) cacheKey of
                  (Some buf, c1) \<Rightarrow> return buf (st\<lparr>audioCache := c1\<rparr>)
                | (None, _) \<Rightarrow>
                    (case atob data of
                       None \<Rightarrow> throw InvalidCharacterError st
                     | Some pcmBytes \<Rightarrow>
                         (case new_Float32Array pcmBytes of
                            Inl err \<Rightarrow> throw err st
                          | Inr pcmFloat \<Rightarrow>
                              (case createBuffer ctx 1 (length pcmFloat) rate of
                                 Inl err \<Rightarrow> throw err st
                               | Inr buf \<Rightarrow>
                                   (let pcmBuffer = copyToChannel buf pcmFloat 0
                                    in return pcmBuffer
                                         (st\<lparr>audioCache := LRU_set (audioCache st) cacheKey pcmBuffer\<rparr>))))))))"

text \<open>
  \<open>decodeSamplerZones\<close>: one promise per zone, created in the order of the zones; each
  decodes its zone and then stores the buffer in the result map, which is keyed by the
  zone object: for the zones of one parsed configuration, by its position. The map is
  given by its lookup (which key has which buffer); the order of its keys, which is
  the order in which the zones finish, is left out. A rejection rejects the
  \<open>Promise.all\<close>, and the map is then not returned.
\<close>

definition decodeZone :: "network \<Rightarrow> string option \<Rightarrow> nat \<times> SampleZone
    \<Rightarrow> (nat \<times> AudioBuffer) async" where
  "decodeZone net presetUrl iz =
     await_call (decodeAudio_async net (z_audio (snd iz)) presetUrl)
       (\<lambda>buffer. return (fst iz, buffer))"

definition decodeSamplerZones :: "nat list \<Rightarrow> network \<Rightarrow> SamplerConfig \<Rightarrow> string option
    \<Rightarrow> (nat \<rightharpoonup> AudioBuffer) async" where
  "decodeSamplerZones schedule net config presetUrl st =
     (case start_all (map (decodeZone net presetUrl)
                          (zip [0..<length (zones config)] (zones config))) st of
        (promises, st1) \<Rightarrow>
          (await_task (Promise_all schedule promises) (\<lambda>pairs. return (map_of pairs)), st1))"

text \<open>The outcome of \<open>Promise.all\<close> under every schedule.\<close>

definition all_outcome :: "'a task list \<Rightarrow> error + 'a list \<Rightarrow> bool" where
  "all_outcome ts res \<longleftrightarrow>
     (\<exists>err. res = Inl err \<and> (\<exists>i < length ts. may_settle (ts ! i) (Inl err))) \<or>
     (\<exists>xs. res = Inr xs \<and> length xs = length ts \<and>
           (\<forall>i < length ts. may_settle (ts ! i) (Inr (xs ! i))))"

section \<open>Preloading (lines 627-668)\<close>







section \<open>The properties, in the words of the specification\<close>

text \<open>The three tiers of library-name resolution, each as a predicate on one sub-index
  entry, and the sub-index entries of an index in document order.\<close>

fun subIndexEntries :: "IndexEntry list \<Rightarrow> SubIndexEntry list" where
  "subIndexEntries [] = []"
| "subIndexEntries (Index e # es) = e # subIndexEntries es"
| "subIndexEntries (Preset _ # es) = subIndexEntries es"

definition exactMatch :: "string \<Rightarrow> SubIndexEntry \<Rightarrow> bool" where
  "exactMatch name e = (s_name e = name)"

definition normalizedMatch :: "string \<Rightarrow> SubIndexEntry \<Rightarrow> bool" where
  "normalizedMatch name e =
     (toLowerCase (replace_underscores (s_name e)) = toLowerCase (replace_underscores name))"

definition pathPrefixMatch :: "string \<Rightarrow> SubIndexEntry \<Rightarrow> bool" where
  "pathPrefixMatch name e = prefix (name @ ''/'') (s_path e)"

definition someTierMatches :: "PresetIndex \<Rightarrow> string \<Rightarrow> bool" where
  "someTierMatches rootIdx name =
     (filter (\<lambda>e. exactMatch name e \<or> normalizedMatch name e \<or> pathPrefixMatch name e)
        (subIndexEntries (i_entries rootIdx)) \<noteq> [])"

text \<open>The first match of the first tier that has one.\<close>

definition firstTierMatch :: "PresetIndex \<Rightarrow> string \<Rightarrow> SubIndexEntry option" where
  "firstTierMatch rootIdx name =
     (let subs = subIndexEntries (i_entries rootIdx) in
      case find (exactMatch name) subs of
        Some e \<Rightarrow> Some e
      | None \<Rightarrow>
          (case find (normalizedMatch name) subs of
             Some e \<Rightarrow> Some e
           | None \<Rightarrow> find (pathPrefixMatch name) subs))"

text \<open>The flat catalogue: no sub-index at all, and the root index carries the name.\<close>

definition isFlatLibrary :: "PresetIndex \<Rightarrow> string \<Rightarrow> bool" where
  "isFlatLibrary rootIdx name = (subIndexEntries (i_entries rootIdx) = [] \<and> i_name rootIdx = name)"

text \<open>
  The filters of \<open>search\<close> as the specification words them, on a pair of the owning
  library name and the entry: every filter that is present must hold.
\<close>

definition filters_as_stated :: "SearchOptions \<Rightarrow> string \<times> PresetEntry \<Rightarrow> bool" where
  "filters_as_stated opts r =
     ((case o_library opts of None \<Rightarrow> True
        | Some l \<Rightarrow> toLowerCase (fst r) = toLowerCase l)
    \<and> (case o_category opts of None \<Rightarrow> True
        | Some c \<Rightarrow> e_category (snd r) = c)
    \<and> (case o_gmProgram opts of None \<Rightarrow> True
        | Some g \<Rightarrow> e_gmProgram (snd r) = Some g)
    \<and> (case o_tags opts of None \<Rightarrow> True
        | Some ts \<Rightarrow> \<exists>t \<in> set (e_tags (snd r)). \<exists>q \<in> set ts. toLowerCase t = toLowerCase q)
    \<and> (case o_name opts of None \<Rightarrow> True
        | Some n \<Rightarrow> sublist (toLowerCase n) (toLowerCase (e_name (snd r)))))"

text \<open>What the code takes as supplied: an empty library string and an empty tag list
  are as good as absent.\<close>

definition supplied_options :: "SearchOptions \<Rightarrow> SearchOptions" where
  "supplied_options opts =
     opts\<lparr>o_library := (case o_library opts of Some [] \<Rightarrow> None | l \<Rightarrow> l),
          o_tags := (case o_tags opts of Some [] \<Rightarrow> None | ts \<Rightarrow> ts)\<rparr>"




text \<open>A library is enabled under a name: the name is enabled, and it is registered for
  this library.\<close>

definition enabled_as :: "PresetLoader \<Rightarrow> string \<Rightarrow> LoadedLibrary \<Rightarrow> bool" where
  "enabled_as st name lib \<longleftrightarrow>
     name \<in> set (enabledLibraries st) \<and> Map_get (loadedLibraries st) name = Some lib"

text \<open>
  The promises of the zones of a sampler configuration are created in the order of the
  zones, each running to its first \<open>await\<close>: zone \<open>i\<close> starts in the state left by the
  synchronous parts of the zones before it, and its outcome is that of decoding its
  reference from there.
\<close>

definition zone_start :: "network \<Rightarrow> string option \<Rightarrow> SampleZone list \<Rightarrow> PresetLoader
    \<Rightarrow> nat \<Rightarrow> PresetLoader" where
  "zone_start net presetUrl zs st i =
     foldl (\<lambda>s zone. snd (decodeAudio_async net (z_audio zone) presetUrl s)) st (take i zs)"

definition zone_outcome :: "network \<Rightarrow> string option \<Rightarrow> SampleZone list \<Rightarrow> PresetLoader
    \<Rightarrow> nat \<Rightarrow> error + AudioBuffer" where
  "zone_outcome net presetUrl zs st i =
     fst (decodeAudio net (z_audio (zs ! i)) presetUrl (zone_start net presetUrl zs st i))"



section \<open>Example catalogues\<close>

text \<open>A catalogue at \<open>https://x.org/p\<close>: the root index is a parameter, the library
  \<open>FluidR3_GM\<close> has two presets, a piano built of two sample zones and a pad.\<close>

definition piano :: PresetEntry where
  "piano = \<lparr>e_name = ''Acoustic Grand Piano'', e_path = ''piano/preset.json'',
     e_category = sampler, e_tags = [''piano'', ''Grand''], e_gmProgram = Some 0\<rparr>"

definition pad :: PresetEntry where
  "pad = \<lparr>e_name = ''Warm Pad'', e_path = ''pad.json'', e_category = synth,
     e_tags = [''pad''], e_gmProgram = Some 89\<rparr>"

definition fluid :: PresetIndex where
  "fluid = \<lparr>i_name = ''FluidR3 GM'', i_description = None,
     i_entries = [Preset piano, Preset pad]\<rparr>"

definition violin :: PresetEntry where
  "violin = \<lparr>e_name = ''Violin'', e_path = ''violin.json'', e_category = sampler,
     e_tags = [''strings''], e_gmProgram = Some 40\<rparr>"

definition other :: PresetIndex where
  "other = \<lparr>i_name = ''Other'', i_description = None, i_entries = [Preset violin]\<rparr>"

definition subIndex :: "string \<Rightarrow> string \<Rightarrow> IndexEntry" where
  "subIndex name path =
     Index \<lparr>s_name = name, s_path = path, s_description = None, s_presetCount = None\<rparr>"

definition rootWith :: "IndexEntry list \<Rightarrow> PresetIndex" where
  "rootWith es = \<lparr>i_name = ''root'', i_description = None, i_entries = es\<rparr>"

definition ok200 :: "body \<Rightarrow> Response option" where
  "ok200 b = Some \<lparr>status = 200, body = b\<rparr>"

definition catalogue :: "PresetIndex \<Rightarrow> network" where
  "catalogue rootIdx =
     (\<lambda>url. if url = ''https://x.org/p/index.json'' then ok200 (JsonIndex rootIdx)
            else if url = ''https://x.org/p/FluidR3_GM/index.json'' then ok200 (JsonIndex fluid)
            else if url = ''https://x.org/p/Other/index.json'' then ok200 (JsonIndex other)
            else if url = ''https://x.org/p/FluidR3_GM/pad.json''
              then ok200 (JsonPreset \<lparr>p_node = Some \<lparr>n_type = ''oscillator'', n_config = None\<rparr>\<rparr>)
            else None)"

definition loader0 :: PresetLoader where
  "loader0 = new_PresetLoader ''https://x.org/p/'' None None"

text \<open>A flat catalogue: the root index lists presets only.\<close>

definition flatRoot :: PresetIndex where
  "flatRoot = \<lparr>i_name = ''Flat'', i_description = None, i_entries = [Preset pad]\<rparr>"

text \<open>Three root indexes that list the library under its exact name, under the name
  with a space, and under an unrelated display name with only the path to go by.\<close>

definition rootExact :: PresetIndex where
  "rootExact = rootWith [subIndex ''Other'' ''Other/index.json'',
                         subIndex ''FluidR3_GM'' ''FluidR3_GM/index.json'']"

definition rootSpaced :: PresetIndex where
  "rootSpaced = rootWith [subIndex ''Other'' ''Other/index.json'',
                          subIndex ''FluidR3 GM'' ''FluidR3_GM/index.json'']"

definition rootByPath :: PresetIndex where
  "rootByPath = rootWith [subIndex ''Other'' ''Other/index.json'',
                          subIndex ''fluid r3 (General MIDI)'' ''FluidR3_GM/index.json'']"

text \<open>The example engine with both libraries enabled.\<close>

definition bothEnabled :: PresetLoader where
  "bothEnabled = snd (enableLibrary (catalogue rootExact) ''Other''
                   (snd (enableLibrary (catalogue rootExact) ''FluidR3_GM'' loader0)))"




text \<open>A host audio context, an engine that has it, and the samples 1.0, 2.0, 3.0, 4.0
  as 32-bit floats, least significant byte first, in base64.\<close>

definition hostContext :: AudioContext where
  "hostContext =
     \<lparr>rateSupported = (\<lambda>r. 8000 \<le> r \<and> r \<le> 96000),
      decodeAudioData = (\<lambda>bytes. if bytes = [] then None
         else Some \<lparr>numberOfChannels = 1, ab_length = length bytes, sampleRate = 44100,
                     channelData = [replicate (length bytes) 0]\<rparr>)\<rparr>"

definition audioLoader :: PresetLoader where
  "audioLoader = setAudioContext hostContext loader0"

definition fourSamples :: string where
  "fourSamples = ''AACAPwAAAEAAAEBAAACAQA==''"

text \<open>Two zones: the four samples, and a file the catalogue does not have.\<close>

definition pcmZone :: SampleZone where
  "pcmZone = \<lparr>z_audio = InlinePcm fourSamples 22050\<rparr>"

definition missingZone :: SampleZone where
  "missingZone = \<lparr>z_audio = External (Some ''missing.wav'') None None\<rparr>"






text \<open>
  Two zones with one content hash and two codecs, and a store of samples that has the
  first file only.
\<close>

definition wavZone :: SampleZone where
  "wavZone = \<lparr>z_audio = ContentAddressed ''h'' ''wav''\<rparr>"

definition oggZone :: SampleZone where
  "oggZone = \<lparr>z_audio = ContentAddressed ''h'' ''ogg''\<rparr>"

definition sampleStore :: network where
  "sampleStore =
     (\<lambda>url. if url = ''https://x.org/p/samples/h.wav'' then ok200 (Bytes [1, 2, 3]) else None)"

section \<open>Verification: the bounded cache\<close>

lemma update_fresh: "k \<notin> fst ` set m \<Longrightarrow> AList.update k v m = m @ [(k, v)]"
  by (induction m) auto

lemma delete_hd_distinct:
  "distinct (map fst (p # m)) \<Longrightarrow> AList.delete (fst p) (p # m) = m"
  by (cases p) (force simp: AList.delete_eq intro!: filter_True)

lemma length_delete_present:
  "k \<in> fst ` set m \<Longrightarrow> length (AList.delete k m) < length m"
proof (induction m)
  case Nil then show ?case by simp
next
  case (Cons p m)
  show ?case
  proof (cases "fst p = k")
    case True
    then show ?thesis using length_delete_le[of k m] by (cases p) auto
  next
    case False
    then have "k \<in> fst ` set m" using Cons.prems by auto
    then show ?thesis using Cons.IH False by (cases p) auto
  qed
qed

lemma length_update_alist:
  "length (AList.update k v m) = (if k \<in> fst ` set m then length m else Suc (length m))"
  by (induction m) auto

lemma length_delete_distinct:
  "distinct (map fst m) \<Longrightarrow> k \<in> fst ` set m \<Longrightarrow> Suc (length (AList.delete k m)) = length m"
  by (induction m) (force simp: image_iff)+

lemma LRU_set_wf: "cache_wf c \<Longrightarrow> cache_wf (LRU_set c k v)"
  by (auto simp: cache_wf_def LRU_set_def Map_keys_def Map_set_def Map_delete_def Let_def
      distinct_update distinct_delete split: list.splits)

lemma LRU_get_wf: "cache_wf c \<Longrightarrow> cache_wf (snd (LRU_get c k))"
  by (auto simp: cache_wf_def LRU_get_def Map_keys_def Map_set_def Map_delete_def Map_get_def
      distinct_update distinct_delete split: option.splits)

lemma LRU_set_maxSize [simp]: "maxSize (LRU_set c k v) = maxSize c"
  by (simp add: LRU_set_def Let_def)

lemma LRU_get_maxSize [simp]: "maxSize (snd (LRU_get c k)) = maxSize c"
  by (simp add: LRU_get_def split: option.splits)

lemma LRU_set_bound:
  assumes "1 \<le> maxSize c" "int (LRU_size c) \<le> maxSize c"
  shows "int (LRU_size (LRU_set c k v)) \<le> maxSize c"
proof (cases "Map_has (cache c) k")
  case True
  then have "length (AList.delete k (cache c)) < length (cache c)"
    by (simp add: Map_has_def length_delete_present)
  moreover have "k \<notin> fst ` set (AList.delete k (cache c))"
    by (rule delete_notin_dom)
  ultimately show ?thesis using assms True
    by (simp add: LRU_set_def LRU_size_def Map_set_def Map_delete_def Let_def update_fresh)
next
  case False
  note nk = False
  show ?thesis
  proof (cases "int (length (cache c)) \<ge> maxSize c")
    case True
    then obtain p m where m: "cache c = p # m" using assms by (cases "cache c") auto
    have "length (AList.delete (fst p) (p # m)) \<le> length m"
      using length_delete_present[of "fst p" "p # m"] by simp
    moreover have "length (AList.update k v (AList.delete (fst p) (p # m)))
        \<le> Suc (length (AList.delete (fst p) (p # m)))"
      by (simp add: length_update_alist)
    ultimately show ?thesis using assms True nk m
      by (simp add: LRU_set_def LRU_size_def Map_set_def Map_delete_def Map_keys_def Let_def)
  next
    case False
    then show ?thesis using assms nk
      by (simp add: LRU_set_def LRU_size_def Map_set_def Let_def length_update_alist Map_has_def)
  qed
qed

lemma LRU_get_size: "cache_wf c \<Longrightarrow> LRU_size (snd (LRU_get c k)) = LRU_size c"
  apply (auto simp: LRU_get_def LRU_size_def cache_wf_def Map_get_def Map_set_def Map_delete_def Map_keys_def
      split: option.splits)
  subgoal for v
    using length_delete_distinct[of "cache c" k] delete_notin_dom[of k "cache c"]
    by (simp add: update_fresh map_of_eq_Some_iff rev_image_eqI)
  done

lemma drop_snoc_append:
  assumes "d \<le> Suc (length xs)"
  shows "drop d (xs @ [x]) @ ys = drop d (xs @ x # ys)"
proof -
  have "drop d ((xs @ [x]) @ ys) = drop d (xs @ [x]) @ drop (d - length (xs @ [x])) ys"
    by (simp only: drop_append)
  moreover have "d - length (xs @ [x]) = 0" using assms by simp
  ultimately show ?thesis by simp
qed

lemma LRU_set_fresh:
  assumes wf: "cache_wf c" and n: "1 \<le> maxSize c" and le: "int (LRU_size c) \<le> maxSize c"
    and fresh: "k \<notin> fst ` set (cache c)"
  shows "cache (LRU_set c k v) =
           drop (Suc (length (cache c)) - nat (maxSize c)) (cache c @ [(k, v)])"
proof (cases "int (length (cache c)) \<ge> maxSize c")
  case True
  then have len: "length (cache c) = nat (maxSize c)" using le by (simp add: LRU_size_def)
  then obtain p m where m: "cache c = p # m" using n by (cases "cache c") auto
  have d: "AList.delete (fst p) (p # m) = m"
    using wf m by (simp add: cache_wf_def Map_keys_def delete_hd_distinct del: delete_simps)
  have "k \<notin> fst ` set m" using fresh m by auto
  then have "AList.update k v m = m @ [(k, v)]" by (rule update_fresh)
  then show ?thesis using True fresh m d len
    by (simp add: LRU_set_def Let_def Map_has_def Map_keys_def Map_delete_def Map_set_def
        del: delete_simps)
next
  case False
  then have "Suc (length (cache c)) - nat (maxSize c) = 0" by simp
  then show ?thesis using False fresh
    by (simp add: LRU_set_def Let_def Map_has_def Map_set_def update_fresh)
qed

lemma set_all_fresh:
  assumes "cache_wf c" "1 \<le> maxSize c" "int (LRU_size c) \<le> maxSize c"
    and "distinct (map fst kvs)" "fst ` set kvs \<inter> fst ` set (cache c) = {}"
  shows "cache (set_all c kvs) =
           drop (length (cache c) + length kvs - nat (maxSize c)) (cache c @ kvs)
         \<and> maxSize (set_all c kvs) = maxSize c"
  using assms
proof (induction kvs arbitrary: c)
  case Nil
  then show ?case by (simp add: set_all_def LRU_size_def)
next
  case (Cons kv kvs)
  obtain k v where kv: "kv = (k, v)" by (cases kv)
  let ?c1 = "LRU_set c k v"
  let ?n = "nat (maxSize c)"
  let ?m = "cache c"
  have fresh: "k \<notin> fst ` set ?m" using Cons.prems(5) kv by auto
  have c1: "cache ?c1 = drop (Suc (length ?m) - ?n) (?m @ [(k, v)])"
    using LRU_set_fresh[OF Cons.prems(1-3) fresh] .
  have wf1: "cache_wf ?c1" using Cons.prems(1) by (rule LRU_set_wf)
  have b1: "int (LRU_size ?c1) \<le> maxSize ?c1"
    using LRU_set_bound[OF Cons.prems(2,3)] by simp
  have sub: "fst ` set (cache ?c1) \<subseteq> insert k (fst ` set ?m)"
    unfolding c1 using set_drop_subset[of "Suc (length ?m) - ?n" "?m @ [(k, v)]"] by auto
  have disj: "fst ` set kvs \<inter> fst ` set (cache ?c1) = {}"
  proof -
    have "k \<notin> fst ` set kvs" using Cons.prems(4) kv by simp
    moreover have "fst ` set kvs \<inter> fst ` set ?m = {}" using Cons.prems(5) by auto
    ultimately have "fst ` set kvs \<inter> insert k (fst ` set ?m) = {}" by blast
    then show ?thesis using sub by blast
  qed
  have IH: "cache (set_all ?c1 kvs) =
           drop (length (cache ?c1) + length kvs - nat (maxSize ?c1)) (cache ?c1 @ kvs)
         \<and> maxSize (set_all ?c1 kvs) = maxSize ?c1"
    using Cons.IH[OF wf1 _ b1 _ disj] Cons.prems(2,4) by simp
  have step: "set_all c (kv # kvs) = set_all ?c1 kvs" by (simp add: set_all_def kv)
  have lenle: "length ?m \<le> ?n" using Cons.prems(3) by (simp add: LRU_size_def)
  have len1: "length (cache ?c1) = Suc (length ?m) - (Suc (length ?m) - ?n)"
    unfolding c1 by simp
  have "drop (length (cache ?c1) + length kvs - ?n) (cache ?c1 @ kvs)
      = drop (length ?m + length (kv # kvs) - ?n) (?m @ kv # kvs)"
  proof -
    have "cache ?c1 @ kvs = drop (Suc (length ?m) - ?n) (?m @ kv # kvs)"
      unfolding c1 kv by (rule drop_snoc_append) simp
    then have "drop (length (cache ?c1) + length kvs - ?n) (cache ?c1 @ kvs)
       = drop (length (cache ?c1) + length kvs - ?n + (Suc (length ?m) - ?n)) (?m @ kv # kvs)"
      by (simp only: drop_drop)
    moreover have "length (cache ?c1) + length kvs - ?n + (Suc (length ?m) - ?n)
       = length ?m + length (kv # kvs) - ?n"
    proof (cases "length ?m = ?n")
      case True
      then show ?thesis using len1 by simp
    next
      case False
      then have "Suc (length ?m) - ?n = 0" using lenle by simp
      then show ?thesis using len1 by simp
    qed
    ultimately show ?thesis by (simp only:)
  qed
  then show ?case using IH step by simp
qed

lemma apply_cache_op_inv:
  assumes "cache_wf c" "1 \<le> maxSize c" "int (LRU_size c) \<le> maxSize c"
  shows "cache_wf (apply_cache_op c x) \<and> maxSize (apply_cache_op c x) = maxSize c
       \<and> int (LRU_size (apply_cache_op c x)) \<le> maxSize c"
proof (cases x)
  case (OpGet k)
  then show ?thesis using assms by (simp add: LRU_get_wf LRU_get_size)
next
  case (OpSet k v)
  then show ?thesis using assms by (simp add: LRU_set_wf LRU_set_bound)
next
  case OpClear
  then show ?thesis using assms
    by (simp add: LRU_clear_def cache_wf_def LRU_size_def Map_keys_def)
qed

lemma run_cache_ops_inv:
  assumes "cache_wf c" "1 \<le> maxSize c" "int (LRU_size c) \<le> maxSize c"
  shows "cache_wf (run_cache_ops c ops) \<and> maxSize (run_cache_ops c ops) = maxSize c
       \<and> int (LRU_size (run_cache_ops c ops)) \<le> maxSize c"
  using assms
proof (induction ops arbitrary: c)
  case Nil
  then show ?case by (simp add: run_cache_ops_def)
next
  case (Cons x ops)
  have step: "run_cache_ops c (x # ops) = run_cache_ops (apply_cache_op c x) ops"
    by (simp add: run_cache_ops_def)
  from apply_cache_op_inv[OF Cons.prems, of x] Cons.IH[of "apply_cache_op c x"] Cons.prems(2)
  show ?case unfolding step by simp
qed

lemma LRU_new_wf: "cache_wf (LRU_new n)" "maxSize (LRU_new n) = n" "LRU_size (LRU_new n) = 0"
  "cache (LRU_new n) = []"
  by (simp_all add: LRU_new_def cache_wf_def Map_keys_def LRU_size_def)

text \<open>
  Claim C1, as the code has it: for every capacity \<open>n\<close> of at least one, a cache built
  from the empty cache by any run of \<open>get\<close>, \<open>set\<close> and \<open>clear\<close> holds at most \<open>n\<close>
  entries; and after \<open>n + 1\<close> insertions of distinct keys into the empty cache, with no
  read in between, the cache holds exactly the last \<open>n\<close> insertions: the one key evicted
  is the first inserted, which is absent.
\<close>

theorem LRU_bounded_and_evicts_first:
  assumes "1 \<le> n"
  shows "int (LRU_size (run_cache_ops (LRU_new n) ops)) \<le> n
       \<and> (distinct (map fst kvs) \<and> length kvs = nat n + 1 \<longrightarrow>
            cache (set_all (LRU_new n) kvs) = tl kvs
          \<and> \<not> LRU_has (set_all (LRU_new n) kvs) (fst (hd kvs))
          \<and> (\<forall>k \<in> fst ` set (tl kvs). LRU_has (set_all (LRU_new n) kvs) k))"
proof (intro conjI impI)
  show "int (LRU_size (run_cache_ops (LRU_new n) ops)) \<le> n"
    using run_cache_ops_inv[of "LRU_new n" ops] assms by (simp add: LRU_new_wf)
next
  assume h: "distinct (map fst kvs) \<and> length kvs = nat n + 1"
  have "cache (set_all (LRU_new n) kvs) = drop (length kvs - nat n) kvs"
    using set_all_fresh[of "LRU_new n" kvs] assms h by (simp add: LRU_new_wf)
  then have c: "cache (set_all (LRU_new n) kvs) = tl kvs" using h by (simp add: drop_Suc)
  show "cache (set_all (LRU_new n) kvs) = tl kvs" by (rule c)
  obtain kv rest where kvs: "kvs = kv # rest" using h by (cases kvs) auto
  show "\<not> LRU_has (set_all (LRU_new n) kvs) (fst (hd kvs))"
  proof -
    have "fst kv \<notin> fst ` set rest" using h kvs by simp
    then show ?thesis unfolding LRU_has_def Map_has_def c by (simp add: kvs)
  qed
  show "\<forall>k \<in> fst ` set (tl kvs). LRU_has (set_all (LRU_new n) kvs) k"
    unfolding LRU_has_def Map_has_def c by simp
qed

text \<open>Capacity two: a run with a read and an overwrite, and three insertions.\<close>

theorem LRU_bounded_and_evicts_first_witness:
  "(1::int) \<le> 2
   \<and> int (LRU_size (run_cache_ops (LRU_new 2)
          [OpSet ''a'' (1::nat), OpSet ''b'' 2, OpGet ''a'', OpSet ''c'' 3, OpSet ''b'' 4])) \<le> 2
   \<and> distinct (map fst [(''a'', 1::nat), (''b'', 2), (''c'', 3)])
   \<and> length [(''a'', 1::nat), (''b'', 2), (''c'', 3)] = nat 2 + 1
   \<and> cache (set_all (LRU_new 2) [(''a'', 1::nat), (''b'', 2), (''c'', 3)]) = [(''b'', 2), (''c'', 3)]
   \<and> \<not> LRU_has (set_all (LRU_new 2) [(''a'', 1::nat), (''b'', 2), (''c'', 3)]) ''a''"
  using LRU_bounded_and_evicts_first[of 2
      "[OpSet ''a'' (1::nat), OpSet ''b'' 2, OpGet ''a'', OpSet ''c'' 3, OpSet ''b'' 4]"
      "[(''a'', 1::nat), (''b'', 2), (''c'', 3)]"]
  by simp

text \<open>
  Capacity zero: \<open>set\<close> finds the map empty, has no oldest key to delete, and stores
  the pair; the size is then one, and the only key inserted is still present.
\<close>

theorem LRU_capacity_zero_counterexample:
  "\<not> int (LRU_size (run_cache_ops (LRU_new 0) [OpSet ''a'' (1::nat)])) \<le> 0
   \<and> LRU_has (set_all (LRU_new 0) [(''a'', 1::nat)]) ''a''"
  by (simp add: run_cache_ops_def set_all_def LRU_new_def LRU_set_def LRU_size_def LRU_has_def
      Map_has_def Map_keys_def Map_set_def Let_def)

lemma LRU_get_hit:
  assumes "cache_wf c" "LRU_has c k"
  shows "\<exists>v. Map_get (cache c) k = Some v \<and> LRU_get c k =
           (Some v, c\<lparr>cache := AList.delete k (cache c) @ [(k, v)]\<rparr>)"
proof -
  from assms(2) obtain v where v: "map_of (cache c) k = Some v"
    by (force simp: LRU_has_def Map_has_def weak_map_of_SomeI map_of_eq_None_iff)
  have "AList.update k v (AList.delete k (cache c)) = AList.delete k (cache c) @ [(k, v)]"
    by (rule update_fresh) (rule delete_notin_dom)
  then show ?thesis using v
    by (simp add: LRU_get_def Map_get_def Map_set_def Map_delete_def)
qed

text \<open>
  Claim C3, as the code has it: in a cache of capacity \<open>n \<ge> 1\<close>, \<open>get\<close> on a present
  key returns its value, leaves the size unchanged and makes the key the most recently
  used; inserting up to \<open>n - 1\<close> further distinct new keys then does not evict it,
  wherever the key stood before the read.
\<close>

theorem LRU_get_promotes_recency:
  assumes wf: "cache_wf c" and n: "1 \<le> maxSize c" and le: "int (LRU_size c) \<le> maxSize c"
    and has: "LRU_has c k"
    and dk: "distinct (map fst kvs)" and fresh: "fst ` set kvs \<inter> fst ` set (cache c) = {}"
    and few: "int (length kvs) \<le> maxSize c - 1"
  shows "fst (LRU_get c k) = Map_get (cache c) k \<and> fst (LRU_get c k) \<noteq> None
       \<and> LRU_size (snd (LRU_get c k)) = LRU_size c
       \<and> last (Map_keys (cache (snd (LRU_get c k)))) = k
       \<and> LRU_has (set_all (snd (LRU_get c k)) kvs) k"
proof -
  from LRU_get_hit[OF wf has] obtain v where v: "Map_get (cache c) k = Some v"
    and g: "LRU_get c k = (Some v, c\<lparr>cache := AList.delete k (cache c) @ [(k, v)]\<rparr>)"
    by blast
  let ?c1 = "snd (LRU_get c k)"
  let ?d = "AList.delete k (cache c)"
  have c1: "cache ?c1 = ?d @ [(k, v)]" by (simp add: g)
  have wf1: "cache_wf ?c1" using wf by (rule LRU_get_wf)
  have sz: "LRU_size ?c1 = LRU_size c" using wf by (rule LRU_get_size)
  have keys: "fst ` set (cache ?c1) \<subseteq> fst ` set (cache c)"
    unfolding c1 using has dom_delete_subset[of k "cache c"]
    by (auto simp: LRU_has_def Map_has_def)
  have fresh1: "fst ` set kvs \<inter> fst ` set (cache ?c1) = {}" using fresh keys by blast
  have all: "cache (set_all ?c1 kvs) =
      drop (length (cache ?c1) + length kvs - nat (maxSize ?c1)) (cache ?c1 @ kvs)"
    using set_all_fresh[OF wf1 _ _ dk fresh1] n le sz by simp
  have lend: "Suc (length ?d) = length (cache c)"
    using wf has by (simp add: length_delete_distinct cache_wf_def Map_keys_def LRU_has_def Map_has_def)
  have dle: "length (cache ?c1) + length kvs - nat (maxSize ?c1) \<le> length ?d"
    using few le lend n unfolding c1 by (simp add: LRU_size_def)
  have "cache ?c1 @ kvs = ?d @ ((k, v) # kvs)" by (simp add: c1)
  then have "cache (set_all ?c1 kvs) =
      drop (length (cache ?c1) + length kvs - nat (maxSize ?c1)) ?d @ ((k, v) # kvs)"
    using all dle by (simp only: drop_append) simp
  then have "LRU_has (set_all ?c1 kvs) k" by (simp add: LRU_has_def Map_has_def)
  moreover have "last (Map_keys (cache ?c1)) = k" by (simp add: c1 Map_keys_def)
  ultimately show ?thesis using v g sz by simp
qed

text \<open>Capacity two: \<open>a\<close> is inserted first, read, and survives the insertion of
  \<open>c\<close>, which evicts \<open>b\<close>.\<close>

theorem LRU_get_promotes_recency_witness:
  "cache_wf (set_all (LRU_new 2) [(''a'', 1::nat), (''b'', 2)])
   \<and> LRU_has (set_all (LRU_new 2) [(''a'', 1::nat), (''b'', 2)]) ''a''
   \<and> fst (LRU_get (set_all (LRU_new 2) [(''a'', 1::nat), (''b'', 2)]) ''a'') = Some 1
   \<and> Map_keys (cache (snd (LRU_get (set_all (LRU_new 2) [(''a'', 1::nat), (''b'', 2)]) ''a'')))
        = [''b'', ''a'']
   \<and> LRU_has (set_all (snd (LRU_get (set_all (LRU_new 2) [(''a'', 1::nat), (''b'', 2)]) ''a''))
        [(''c'', 3)]) ''a''
   \<and> \<not> LRU_has (set_all (snd (LRU_get (set_all (LRU_new 2) [(''a'', 1::nat), (''b'', 2)]) ''a''))
        [(''c'', 3)]) ''b''"
  using LRU_get_promotes_recency[of "set_all (LRU_new 2) [(''a'', 1::nat), (''b'', 2)]" "''a''"
      "[(''c'', 3)]"]
  by (simp add: set_all_def LRU_new_def LRU_set_def LRU_get_def LRU_size_def LRU_has_def
      cache_wf_def Map_has_def Map_get_def Map_keys_def Map_set_def Map_delete_def Let_def)

text \<open>Capacity two again: after the read, two further insertions (as many as the
  capacity) evict \<open>a\<close> as well.\<close>

theorem LRU_get_then_n_inserts_counterexample:
  "LRU_has (set_all (LRU_new 2) [(''a'', 1::nat), (''b'', 2)]) ''a''
   \<and> \<not> LRU_has (set_all (snd (LRU_get (set_all (LRU_new 2) [(''a'', 1::nat), (''b'', 2)]) ''a''))
        [(''c'', 3), (''d'', 4)]) ''a''"
  by (simp add: set_all_def LRU_new_def LRU_set_def LRU_get_def LRU_size_def LRU_has_def
      cache_wf_def Map_has_def Map_get_def Map_keys_def Map_set_def Map_delete_def Let_def)

section \<open>Verification: index loading and library names\<close>

lemma fetches_simps [simp]: "fetches (st\<lparr>trace := trace st @ [Fetched u]\<rparr>) = fetches st @ [u]"
  by (simp add: fetches_def)

lemma loadRootIndex_cases:
  assumes "rootIndex st = None" "loadRootIndex net st = (Inr idx, st1)"
  shows "st1 = st\<lparr>trace := trace st @ [Fetched (baseUrl st @ ''/index.json'')], rootIndex := Some idx\<rparr>"
  using assms
  by (auto simp: loadRootIndex_def fetch_def Let_def split: option.splits if_splits body.splits)

text \<open>
  Claim C7: a call of \<open>loadRootIndex\<close> on an engine without a root index that returns
  an index has fetched \<open>{baseUrl}/index.json\<close> once and stored the index; a second call
  returns that same stored index, leaves the whole state as it is, and so fetches
  nothing, whatever the network would answer.
\<close>

theorem loadRootIndex_memoized:
  assumes "rootIndex st = None" and "loadRootIndex net st = (Inr idx, st1)"
  shows "fetches st1 = fetches st @ [baseUrl st @ ''/index.json'']
       \<and> rootIndex st1 = Some idx
       \<and> loadRootIndex net2 st1 = (Inr idx, st1)"
proof -
  have st1: "st1 = st\<lparr>trace := trace st @ [Fetched (baseUrl st @ ''/index.json'')], rootIndex := Some idx\<rparr>"
    using assms by (rule loadRootIndex_cases)
  have "fetches st1 = fetches st @ [baseUrl st @ ''/index.json'']"
    unfolding st1 by (simp add: fetches_def)
  moreover have "rootIndex st1 = Some idx" unfolding st1 by simp
  moreover from this have "loadRootIndex net2 st1 = (Inr idx, st1)"
    by (simp add: loadRootIndex_def)
  ultimately show ?thesis by simp
qed

text \<open>A new engine on the example catalogue: one fetch, then the memoised index.\<close>

theorem loadRootIndex_memoized_witness:
  "rootIndex (new_PresetLoader ''https://x.org/p/'' None None) = None
   \<and> fst (loadRootIndex (catalogue rootExact) (new_PresetLoader ''https://x.org/p/'' None None))
       = Inr rootExact
   \<and> fetches (snd (loadRootIndex (catalogue rootExact) (new_PresetLoader ''https://x.org/p/'' None None)))
       = [''https://x.org/p/index.json'']
   \<and> loadRootIndex (catalogue rootExact) (snd (loadRootIndex (catalogue rootExact) (new_PresetLoader ''https://x.org/p/'' None None)))
       = (Inr rootExact,
          snd (loadRootIndex (catalogue rootExact) (new_PresetLoader ''https://x.org/p/'' None None)))"
proof -
  let ?st = "new_PresetLoader ''https://x.org/p/'' None None"
  let ?idx = "rootExact"
  have h1: "rootIndex ?st = None" by (simp add: new_PresetLoader_def)
  have b: "baseUrl ?st = ''https://x.org/p''" by (simp add: new_PresetLoader_def trimTrailingSlash_def)
  have f0: "fetches ?st = []" by (simp add: new_PresetLoader_def fetches_def)
  have r: "fst (loadRootIndex (catalogue rootExact) ?st) = Inr ?idx"
    by (simp add: loadRootIndex_def h1 b fetch_def catalogue_def ok200_def ok_def)
  then have h2: "loadRootIndex (catalogue rootExact) ?st = (Inr ?idx, snd (loadRootIndex (catalogue rootExact) ?st))"
    by (metis prod.collapse)
  from loadRootIndex_memoized[OF h1 h2, of "catalogue rootExact"] h1 r b f0 show ?thesis by simp
qed

lemma find_index_entry_eq: "find_index_entry p es = find p (subIndexEntries es)"
  by (induction p es rule: find_index_entry.induct) auto

lemma hasSubIndexes_iff: "hasSubIndexes r \<longleftrightarrow> subIndexEntries (i_entries r) \<noteq> []"
proof -
  have "(\<exists>e \<in> set es. case e of Index _ \<Rightarrow> True | Preset _ \<Rightarrow> False) \<longleftrightarrow> subIndexEntries es \<noteq> []" for es
    by (induction es rule: subIndexEntries.induct) auto
  then show ?thesis by (simp add: hasSubIndexes_def)
qed

lemma findLibEntry_firstTierMatch: "findLibEntry r name = firstTierMatch r name"
proof -
  have e1: "exactMatch name = (\<lambda>e. s_name e = name)"
    by (rule ext) (simp add: exactMatch_def)
  have e2: "normalizedMatch name = (\<lambda>e. toLowerCase (replace_underscores (s_name e))
      = toLowerCase (replace_underscores name))"
    by (rule ext) (simp add: normalizedMatch_def)
  have e3: "pathPrefixMatch name = (\<lambda>e. startsWith (s_path e) (name @ ''/''))"
    by (rule ext) (simp add: pathPrefixMatch_def startsWith_def)
  show ?thesis
    by (simp add: findLibEntry_def firstTierMatch_def find_index_entry_eq Let_def e1 e2 e3
        cong: option.case_cong)
qed

lemma firstTierMatch_None: "firstTierMatch r name = None \<longleftrightarrow> \<not> someTierMatches r name"
proof -
  let ?subs = "subIndexEntries (i_entries r)"
  have "firstTierMatch r name = None \<longleftrightarrow>
      find (exactMatch name) ?subs = None \<and> find (normalizedMatch name) ?subs = None
      \<and> find (pathPrefixMatch name) ?subs = None"
    by (simp add: firstTierMatch_def Let_def split: option.splits)
  also have "\<dots> \<longleftrightarrow> \<not> someTierMatches r name"
    by (auto simp: someTierMatches_def find_None_iff filter_empty_conv)
  finally show ?thesis .
qed

lemma loadRootIndex_baseUrl: "baseUrl (snd (loadRootIndex net st)) = baseUrl st"
  by (auto simp: loadRootIndex_def fetch_def Let_def split: option.splits body.splits)

lemma loadLibrary_not_flat:
  assumes nl: "Map_get (loadedLibraries st) name = None"
    and rt: "loadRootIndex net st = (Inr rootIdx, st1)"
    and nf: "\<not> isFlatLibrary rootIdx name"
  shows "loadLibrary net name st =
     (case firstTierMatch rootIdx name of
        None \<Rightarrow> (Inl (LibraryNotFound name), st1)
      | Some libEntry \<Rightarrow>
          (let libUrl = baseUrl st1 @ ''/'' @ s_path libEntry in
           case fetch net libUrl st1 of
             (None, st2) \<Rightarrow> (Inl (NetworkError libUrl), st2)
           | (Some resp, st2) \<Rightarrow>
               if \<not> ok resp then (Inl (FetchLibraryFailed (status resp) libUrl), st2)
               else (case body resp of
                       JsonIndex idx \<Rightarrow>
                         (let loaded = \<lparr>lib_index = idx, lib_baseUrl = dirOf libUrl\<rparr>;
                              m1 = Map_set (loadedLibraries st2) name loaded;
                              m2 = (if s_name libEntry \<noteq> name
                                    then Map_set m1 (s_name libEntry) loaded else m1)
                          in (Inr loaded, st2\<lparr>loadedLibraries := m2\<rparr>))
                     | _ \<Rightarrow> (Inl (JsonError libUrl), st2))))"
proof (cases "hasSubIndexes rootIdx")
  case True
  then show ?thesis using nl rt
    by (simp add: loadLibrary_def findLibEntry_firstTierMatch)
next
  case False
  then have "i_name rootIdx \<noteq> name" using nf by (simp add: isFlatLibrary_def hasSubIndexes_iff)
  then show ?thesis using nl rt False
    by (simp add: loadLibrary_def findLibEntry_firstTierMatch)
qed

text \<open>
  Claim C4, as the code has it: for a name that is not loaded yet and a root index that
  loads, the entry \<open>loadLibrary\<close> resolves is the first exact match if there is one,
  else the first match of the normalised names, else the first entry whose path starts
  with the name and a slash; the call fails with the not-found error exactly when no
  tier matches and the root index is not itself the flat library of that name; and the
  library returned is the document at the resolved entry's path, so that entries with
  the same path give the same library whichever tier found them.
\<close>

theorem loadLibrary_resolution:
  assumes nl: "Map_get (loadedLibraries st) name = None"
    and rt: "loadRootIndex net st = (Inr rootIdx, st1)"
  shows "findLibEntry rootIdx name = firstTierMatch rootIdx name
       \<and> (fst (loadLibrary net name st) = Inl (LibraryNotFound name)
            \<longleftrightarrow> \<not> someTierMatches rootIdx name \<and> \<not> isFlatLibrary rootIdx name)
       \<and> (\<forall>e resp idx. \<not> isFlatLibrary rootIdx name \<and> firstTierMatch rootIdx name = Some e
             \<and> net (baseUrl st @ ''/'' @ s_path e) = Some resp \<and> ok resp \<and> body resp = JsonIndex idx
            \<longrightarrow> fst (loadLibrary net name st)
                  = Inr \<lparr>lib_index = idx, lib_baseUrl = dirOf (baseUrl st @ ''/'' @ s_path e)\<rparr>)"
proof (intro conjI allI impI)
  show "findLibEntry rootIdx name = firstTierMatch rootIdx name"
    by (rule findLibEntry_firstTierMatch)
next
  show "fst (loadLibrary net name st) = Inl (LibraryNotFound name)
            \<longleftrightarrow> \<not> someTierMatches rootIdx name \<and> \<not> isFlatLibrary rootIdx name"
  proof (cases "isFlatLibrary rootIdx name")
    case True
    then show ?thesis using nl rt
      by (simp add: loadLibrary_def isFlatLibrary_def hasSubIndexes_iff Let_def)
  next
    case False
    note unf = loadLibrary_not_flat[OF nl rt False]
    show ?thesis
    proof (cases "firstTierMatch rootIdx name")
      case None
      then show ?thesis using False firstTierMatch_None[of rootIdx name] by (simp add: unf)
    next
      case (Some e)
      then have "someTierMatches rootIdx name" using firstTierMatch_None[of rootIdx name] by simp
      moreover have "fst (loadLibrary net name st) \<noteq> Inl (LibraryNotFound name)"
        using Some
        by (auto simp: unf fetch_def Let_def split: option.splits body.splits)
      ultimately show ?thesis by simp
    qed
  qed
next
  fix e resp idx
  assume h: "\<not> isFlatLibrary rootIdx name \<and> firstTierMatch rootIdx name = Some e
             \<and> net (baseUrl st @ ''/'' @ s_path e) = Some resp \<and> ok resp \<and> body resp = JsonIndex idx"
  have b: "baseUrl st1 = baseUrl st" using loadRootIndex_baseUrl[of net st] rt by simp
  from h have nf: "\<not> isFlatLibrary rootIdx name" by simp
  show "fst (loadLibrary net name st)
      = Inr \<lparr>lib_index = idx, lib_baseUrl = dirOf (baseUrl st @ ''/'' @ s_path e)\<rparr>"
    using h b by (simp add: loadLibrary_not_flat[OF nl rt nf] fetch_def Let_def)
qed


text \<open>\<open>FluidR3_GM\<close> resolves to the same library from the three example root indexes,
  and a name that no tier matches is not found.\<close>

theorem loadLibrary_resolution_witness:
  "fst (loadLibrary (catalogue rootExact) ''FluidR3_GM'' loader0)
     = Inr \<lparr>lib_index = fluid, lib_baseUrl = ''https://x.org/p/FluidR3_GM''\<rparr>
   \<and> fst (loadLibrary (catalogue rootSpaced) ''FluidR3_GM'' loader0)
     = Inr \<lparr>lib_index = fluid, lib_baseUrl = ''https://x.org/p/FluidR3_GM''\<rparr>
   \<and> fst (loadLibrary (catalogue rootByPath) ''FluidR3_GM'' loader0)
     = Inr \<lparr>lib_index = fluid, lib_baseUrl = ''https://x.org/p/FluidR3_GM''\<rparr>
   \<and> map_option s_name (firstTierMatch rootByPath ''FluidR3_GM'') = Some ''fluid r3 (General MIDI)''
   \<and> \<not> someTierMatches rootExact ''Nope''
   \<and> fst (loadLibrary (catalogue rootExact) ''Nope'' loader0) = Inl (LibraryNotFound ''Nope'')"
proof -
  have nl: "Map_get (loadedLibraries loader0) ''Nope'' = None" by code_simp
  have "fst (loadRootIndex (catalogue rootExact) loader0) = Inr rootExact" by code_simp
  then have rt: "loadRootIndex (catalogue rootExact) loader0
      = (Inr rootExact, snd (loadRootIndex (catalogue rootExact) loader0))"
    by (metis prod.collapse)
  have nt: "\<not> someTierMatches rootExact ''Nope''" by code_simp
  have nf: "\<not> isFlatLibrary rootExact ''Nope''" by code_simp
  have a: "fst (loadLibrary (catalogue rootExact) ''Nope'' loader0) = Inl (LibraryNotFound ''Nope'')"
    using loadLibrary_resolution[OF nl rt] nt nf by simp
  have b: "fst (loadLibrary (catalogue rootExact) ''FluidR3_GM'' loader0)
     = Inr \<lparr>lib_index = fluid, lib_baseUrl = ''https://x.org/p/FluidR3_GM''\<rparr>" by code_simp
  have c: "fst (loadLibrary (catalogue rootSpaced) ''FluidR3_GM'' loader0)
     = Inr \<lparr>lib_index = fluid, lib_baseUrl = ''https://x.org/p/FluidR3_GM''\<rparr>" by code_simp
  have d: "fst (loadLibrary (catalogue rootByPath) ''FluidR3_GM'' loader0)
     = Inr \<lparr>lib_index = fluid, lib_baseUrl = ''https://x.org/p/FluidR3_GM''\<rparr>" by code_simp
  have e: "map_option s_name (firstTierMatch rootByPath ''FluidR3_GM'') = Some ''fluid r3 (General MIDI)''"
    by code_simp
  show ?thesis using a b c d e nt by simp
qed

text \<open>The flat catalogue: no tier matches \<open>Flat\<close>, there being no sub-index entry, and
  \<open>loadLibrary\<close> returns the root index as the library.\<close>

theorem loadLibrary_flat_counterexample:
  "\<not> someTierMatches flatRoot ''Flat''
   \<and> fst (loadLibrary (\<lambda>url. if url = ''https://x.org/p/index.json'' then ok200 (JsonIndex flatRoot) else None)
        ''Flat'' loader0)
     = Inr \<lparr>lib_index = flatRoot, lib_baseUrl = ''https://x.org/p''\<rparr>"
  by code_simp

lemma Map_get_set: "Map_get (Map_set m k v) k' = (if k' = k then Some v else Map_get m k')"
  by (simp add: Map_get_def Map_set_def update_conv')

lemma firstTierMatch_Some_not_flat:
  assumes "firstTierMatch r name = Some e"
  shows "\<not> isFlatLibrary r name"
proof
  assume "isFlatLibrary r name"
  then have "subIndexEntries (i_entries r) = []" by (simp add: isFlatLibrary_def)
  then have "firstTierMatch r name = None" by (simp add: firstTierMatch_def)
  with assms show False by simp
qed

lemma scored_positive_entries:
  "map fst (filter (\<lambda>s. snd s > 0) (map (\<lambda>r. (snd r, f (snd r))) rs))
     = filter (\<lambda>e. f e > 0) (map snd rs)"
  by (induction rs) auto

lemma slice0_all: "int (length xs) \<le> limit \<Longrightarrow> slice0 xs limit = xs"
  by (simp add: slice0_def)

lemma mset_fuzzySearch_all:
  assumes "int (length (getEnabledPresets st)) \<le> limit"
  shows "mset (fuzzySearch st q limit)
     = mset (filter (\<lambda>e. fuzzyScore (toLowerCase q) e > 0) (map snd (getEnabledPresets st)))"
proof -
  let ?sc = "filter (\<lambda>s. snd s > 0)
      (map (\<lambda>r. (snd r, fuzzyScore (toLowerCase q) (snd r))) (getEnabledPresets st))"
  have l: "length ?sc \<le> length (getEnabledPresets st)"
    by (rule order_trans[OF length_filter_le]) simp
  have l2: "length (sort_by_score_desc ?sc) = length ?sc"
    by (simp add: sort_by_score_desc_def)
  have "int (length (sort_by_score_desc ?sc)) \<le> limit"
    unfolding l2 using l assms by linarith
  then have "fuzzySearch st q limit = map fst (sort_by_score_desc ?sc)"
    by (simp add: fuzzySearch_def Let_def slice0_all)
  then have "mset (fuzzySearch st q limit) = mset (map fst ?sc)"
    by (simp add: sort_by_score_desc_def)
  then show ?thesis by (simp only: scored_positive_entries)
qed

lemma search_no_options: "search st no_options = map snd (getEnabledPresets st)"
  by (simp add: search_def no_options_def)

section \<open>Verification: search\<close>

lemma presetEntries_set: "e \<in> set (presetEntries es) \<longleftrightarrow> Preset e \<in> set es"
  by (induction es rule: presetEntries.induct) auto

lemma getEnabledPresets_set:
  "(lname, e) \<in> set (getEnabledPresets st) \<longleftrightarrow>
     lname \<in> set (enabledLibraries st)
     \<and> (\<exists>lib. Map_get (loadedLibraries st) lname = Some lib \<and> Preset e \<in> set (i_entries (lib_index lib)))"
proof -
  have "(lname, e) \<in> set (getEnabledPresets st) \<longleftrightarrow>
      (\<exists>x \<in> set (enabledLibraries st).
         (lname, e) \<in> set (case Map_get (loadedLibraries st) x of None \<Rightarrow> []
            | Some lib \<Rightarrow> map (Pair x) (presetEntries (i_entries (lib_index lib)))))"
    by (simp add: getEnabledPresets_def)
  also have "\<dots> \<longleftrightarrow> lname \<in> set (enabledLibraries st)
      \<and> (lname, e) \<in> set (case Map_get (loadedLibraries st) lname of None \<Rightarrow> []
            | Some lib \<Rightarrow> map (Pair lname) (presetEntries (i_entries (lib_index lib))))"
    by (force split: option.splits)
  also have "\<dots> \<longleftrightarrow> lname \<in> set (enabledLibraries st)
     \<and> (\<exists>lib. Map_get (loadedLibraries st) lname = Some lib \<and> Preset e \<in> set (i_entries (lib_index lib)))"
    by (cases "Map_get (loadedLibraries st) lname") (auto simp: presetEntries_set)
  finally show ?thesis .
qed

lemma search_filters:
  "search st opts = map snd (filter (filters_as_stated (supplied_options opts)) (getEnabledPresets st))"
proof -
  let ?R = "getEnabledPresets st"
  define p1 where "p1 = (\<lambda>r::string \<times> PresetEntry. case o_library opts of None \<Rightarrow> True
        | Some l \<Rightarrow> l = [] \<or> toLowerCase (fst r) = toLowerCase l)"
  define p2 where "p2 = (\<lambda>r::string \<times> PresetEntry. case o_category opts of None \<Rightarrow> True
        | Some c \<Rightarrow> e_category (snd r) = c)"
  define p3 where "p3 = (\<lambda>r::string \<times> PresetEntry. case o_gmProgram opts of None \<Rightarrow> True
        | Some g \<Rightarrow> e_gmProgram (snd r) = Some g)"
  define p4 where "p4 = (\<lambda>r::string \<times> PresetEntry. case o_tags opts of None \<Rightarrow> True
        | Some ts \<Rightarrow> ts = [] \<or> (\<exists>t \<in> set (e_tags (snd r)). \<exists>q \<in> set ts. toLowerCase t = toLowerCase q))"
  define p5 where "p5 = (\<lambda>r::string \<times> PresetEntry. case o_name opts of None \<Rightarrow> True
        | Some n \<Rightarrow> sublist (toLowerCase n) (toLowerCase (e_name (snd r))))"
  have s1: "(case o_library opts of None \<Rightarrow> xs
             | Some l \<Rightarrow> if l = [] then xs
                 else filter (\<lambda>r. toLowerCase (fst r) = toLowerCase l) xs) = filter p1 xs" for xs
    by (simp add: p1_def split: option.splits)
  have s2: "(case o_category opts of None \<Rightarrow> xs
             | Some c \<Rightarrow> filter (\<lambda>r. e_category (snd r) = c) xs) = filter p2 xs" for xs
    by (simp add: p2_def split: option.splits)
  have s3: "(case o_gmProgram opts of None \<Rightarrow> xs
             | Some g \<Rightarrow> filter (\<lambda>r. e_gmProgram (snd r) = Some g) xs) = filter p3 xs" for xs
    by (simp add: p3_def split: option.splits)
  have s4: "(case o_tags opts of None \<Rightarrow> xs
             | Some ts \<Rightarrow> if length ts > 0 then
                  filter (\<lambda>r. \<exists>t \<in> set (e_tags (snd r)). toLowerCase t \<in> set (map toLowerCase ts)) xs
                 else xs) = filter p4 xs" for xs
    by (auto simp: p4_def image_iff split: option.splits intro!: filter_cong)
  have s5: "(case o_name opts of None \<Rightarrow> xs
             | Some n \<Rightarrow> if n = [] then xs
                 else filter (\<lambda>r. includesStr (toLowerCase (e_name (snd r))) (toLowerCase n)) xs)
            = filter p5 xs" for xs
    by (auto simp: p5_def includesStr_def toLowerCase_def split: option.splits)
  have "search st opts = map snd (filter p5 (filter p4 (filter p3 (filter p2 (filter p1 ?R)))))"
    unfolding search_def Let_def s1 s2 s3 s4 s5 ..
  also have "\<dots> = map snd (filter (\<lambda>r. p1 r \<and> p2 r \<and> p3 r \<and> p4 r \<and> p5 r) ?R)"
    by (simp add: conj_commute conj_left_commute)
  also have "(\<lambda>r. p1 r \<and> p2 r \<and> p3 r \<and> p4 r \<and> p5 r) = filters_as_stated (supplied_options opts)"
    by (rule ext)
      (auto simp: filters_as_stated_def supplied_options_def p1_def p2_def p3_def p4_def p5_def
        split: option.splits list.splits)
  finally show ?thesis .
qed

text \<open>
  Claim C5, as the code has it: \<open>search\<close> returns, in order, the entries of the enabled
  presets that satisfy every supplied filter, where an empty library string and an
  empty tag list count as not supplied; the enabled presets are exactly the preset
  entries of the libraries loaded under an enabled name; and with no library enabled
  the result is the empty list.
\<close>

theorem search_exact_filter:
  "search st opts
     = map snd (filter (filters_as_stated (supplied_options opts)) (getEnabledPresets st))
   \<and> (\<forall>lname e. (lname, e) \<in> set (getEnabledPresets st) \<longleftrightarrow>
          lname \<in> set (enabledLibraries st)
          \<and> (\<exists>lib. Map_get (loadedLibraries st) lname = Some lib
                 \<and> Preset e \<in> set (i_entries (lib_index lib))))
   \<and> (enabledLibraries st = [] \<longrightarrow> search st opts = [])"
proof (intro conjI allI impI)
  show "search st opts
     = map snd (filter (filters_as_stated (supplied_options opts)) (getEnabledPresets st))"
    by (rule search_filters)
next
  fix lname e
  show "(lname, e) \<in> set (getEnabledPresets st) \<longleftrightarrow>
          lname \<in> set (enabledLibraries st)
          \<and> (\<exists>lib. Map_get (loadedLibraries st) lname = Some lib
                 \<and> Preset e \<in> set (i_entries (lib_index lib)))"
    by (rule getEnabledPresets_set)
next
  assume "enabledLibraries st = []"
  then have "getEnabledPresets st = []" by (simp add: getEnabledPresets_def)
  then show "search st opts = []" by (simp add: search_filters)
qed

text \<open>The new engine finds nothing; with both example libraries enabled each filter
  selects as stated, and a disabled library is left out although it stays loaded.\<close>

theorem search_exact_filter_witness:
  "enabledLibraries loader0 = []
   \<and> search loader0 (no_options\<lparr>o_name := Some ''piano''\<rparr>) = []
   \<and> search bothEnabled (no_options\<lparr>o_tags := Some [''Piano'']\<rparr>) = [piano]
   \<and> search bothEnabled (no_options\<lparr>o_library := Some ''other'', o_category := Some sampler\<rparr>)
       = [violin]
   \<and> search bothEnabled (no_options\<lparr>o_gmProgram := Some 89, o_name := Some ''PAD''\<rparr>) = [pad]
   \<and> search (disableLibrary ''Other'' bothEnabled) no_options = [piano, pad]"
proof -
  have e: "enabledLibraries loader0 = []" by code_simp
  have a: "search loader0 (no_options\<lparr>o_name := Some ''piano''\<rparr>) = []"
    using search_exact_filter[of loader0 "no_options\<lparr>o_name := Some ''piano''\<rparr>"] e by blast
  have b: "search bothEnabled (no_options\<lparr>o_tags := Some [''Piano'']\<rparr>) = [piano]" by code_simp
  have c: "search bothEnabled (no_options\<lparr>o_library := Some ''other'', o_category := Some sampler\<rparr>)
       = [violin]" by code_simp
  have d: "search bothEnabled (no_options\<lparr>o_gmProgram := Some 89, o_name := Some ''PAD''\<rparr>) = [pad]"
    by code_simp
  have f: "search (disableLibrary ''Other'' bothEnabled) no_options = [piano, pad]" by code_simp
  show ?thesis using e a b c d f by simp
qed

text \<open>The empty tag list: no entry has a tag in the empty query set, and \<open>search\<close>
  returns every enabled entry.\<close>

theorem search_empty_tags_counterexample:
  "search bothEnabled (no_options\<lparr>o_tags := Some []\<rparr>) = [piano, pad, violin]
   \<and> map snd (filter (filters_as_stated (no_options\<lparr>o_tags := Some []\<rparr>))
               (getEnabledPresets bothEnabled)) = []"
  by code_simp

lemma split_ws_aux_nonempty: "split_ws_aux acc prev s \<noteq> []"
  by (induction acc prev s rule: split_ws_aux.induct) auto

lemma split_ws_nonempty: "split_ws s \<noteq> []"
  by (simp add: split_ws_def split_ws_aux_nonempty)












section \<open>Verification: one library under two names\<close>

lemma count_list_two:
  assumes "x \<in> set xs" "y \<in> set xs" "x \<noteq> y" "f x = v" "f y = v"
  shows "2 \<le> count_list (map f xs) v"
  using assms(1,2)
proof (induction xs)
  case Nil then show ?case by simp
next
  case (Cons z zs)
  have pos: "0 < count_list (map f zs) v" if "w \<in> set zs" "f w = v" for w
  proof -
    from that have "v \<in> set (map f zs)" by auto
    then show ?thesis by (simp add: count_list_0_iff Suc_le_eq [symmetric] not_less_eq_eq [symmetric])
  qed
  consider "z = x" | "z = y" | "z \<noteq> x" "z \<noteq> y" by blast
  then show ?case
  proof cases
    case 1
    with Cons.prems assms(3) have "y \<in> set zs" by auto
    from pos [OF this assms(5)] 1 assms(4) show ?thesis by simp
  next
    case 2
    with Cons.prems assms(3) have "x \<in> set zs" by auto
    from pos [OF this assms(4)] 2 assms(5) show ?thesis by simp
  next
    case 3
    with Cons.prems have "x \<in> set zs" "y \<in> set zs" by auto
    from Cons.IH [OF this] show ?thesis by simp
  qed
qed

lemma loadRootIndex_enabled:
  "enabledLibraries (snd (loadRootIndex net st)) = enabledLibraries st"
  "loadedLibraries (snd (loadRootIndex net st)) = loadedLibraries st"
  by (auto simp: loadRootIndex_def fetch_def Let_def split: option.splits body.splits)

lemma Set_add_member: "x \<in> set (Set_add xs y) \<longleftrightarrow> x \<in> set xs \<or> x = y"
  by (auto simp: Set_add_def)

lemma alias_registered:
  assumes nl: "Map_get (loadedLibraries st) a = None"
    and rt: "loadRootIndex net st = (Inr rootIdx, st1)"
    and m: "firstTierMatch rootIdx a = Some e" and ne: "s_name e \<noteq> a"
    and f: "net (baseUrl st @ ''/'' @ s_path e) = Some resp" "ok resp" "body resp = JsonIndex idx"
  defines "lib \<equiv> \<lparr>lib_index = idx, lib_baseUrl = dirOf (baseUrl st @ ''/'' @ s_path e)\<rparr>"
  defines "s1 \<equiv> snd (enableLibrary net a st)"
  shows "fst (enableLibrary net a st) = Inr ()"
    and "enabledLibraries s1 = Set_add (enabledLibraries st) a"
    and "Map_get (loadedLibraries s1) a = Some lib"
    and "Map_get (loadedLibraries s1) (s_name e) = Some lib"
    and "enableLibrary net (s_name e) s1
           = (Inr (), s1\<lparr>enabledLibraries := Set_add (enabledLibraries s1) (s_name e)\<rparr>)"
proof -
  let ?b = "s_name e"
  let ?tr = "st1\<lparr>trace := trace st1 @ [Fetched (baseUrl st @ ''/'' @ s_path e)]\<rparr>"
  let ?L = "Map_set (Map_set (loadedLibraries st1) a lib) ?b lib"
  have b: "baseUrl st1 = baseUrl st" using loadRootIndex_baseUrl[of net st] rt by simp
  have e1: "enabledLibraries st1 = enabledLibraries st"
    using loadRootIndex_enabled(1) [of net st] rt by simp
  have ll: "loadLibrary net a st = (Inr lib, ?tr\<lparr>loadedLibraries := ?L\<rparr>)"
    using m ne f b
    by (simp add: loadLibrary_not_flat[OF nl rt firstTierMatch_Some_not_flat[OF m]] fetch_def Let_def
          lib_def)
  have en1: "enableLibrary net a st
      = (Inr (), ?tr\<lparr>loadedLibraries := ?L, enabledLibraries := Set_add (enabledLibraries st) a\<rparr>)"
    using ll e1 by (simp add: enableLibrary_def)
  show "fst (enableLibrary net a st) = Inr ()" by (simp add: en1)
  show c2: "enabledLibraries s1 = Set_add (enabledLibraries st) a" by (simp add: s1_def en1)
  have s1L: "loadedLibraries s1 = ?L" by (simp add: s1_def en1)
  show "Map_get (loadedLibraries s1) a = Some lib" using ne by (simp add: s1L Map_get_set)
  show gb: "Map_get (loadedLibraries s1) ?b = Some lib" by (simp add: s1L Map_get_set)
  then have "loadLibrary net ?b s1 = (Inr lib, s1)" by (simp add: loadLibrary_def)
  then show "enableLibrary net ?b s1
           = (Inr (), s1\<lparr>enabledLibraries := Set_add (enabledLibraries s1) ?b\<rparr>)"
    by (simp add: enableLibrary_def)
qed

lemma twice_enumerated:
  assumes ab: "a \<noteq> b" and ea: "enabled_as st a lib" and eb: "enabled_as st b lib"
    and p: "Preset p \<in> set (i_entries (lib_index lib))"
  shows "(a, p) \<in> set (getEnabledPresets st)" "(b, p) \<in> set (getEnabledPresets st)"
    and "2 \<le> count_list (map snd (getEnabledPresets st)) p"
    and "(\<forall>l. o_library opts = Some l \<longrightarrow> l = []) \<Longrightarrow> p \<in> set (search st opts)
           \<Longrightarrow> 2 \<le> count_list (search st opts) p"
    and "0 < fuzzyScore (toLowerCase q) p \<Longrightarrow> int (length (getEnabledPresets st)) \<le> limit
           \<Longrightarrow> 2 \<le> count_list (fuzzySearch st q limit) p"
proof -
  show ia: "(a, p) \<in> set (getEnabledPresets st)" and ib: "(b, p) \<in> set (getEnabledPresets st)"
    using ea eb p by (auto simp: getEnabledPresets_set enabled_as_def)
  have neq: "(a, p) \<noteq> (b, p)" using ab by simp
  show "2 \<le> count_list (map snd (getEnabledPresets st)) p"
    by (rule count_list_two [OF ia ib neq]) simp_all
  {
    assume nolib: "\<forall>l. o_library opts = Some l \<longrightarrow> l = []" and "p \<in> set (search st opts)"
    let ?F = "filters_as_stated (supplied_options opts)"
    from \<open>p \<in> set (search st opts)\<close> obtain l where l: "?F (l, p)"
      by (auto simp: search_filters)
    have nl: "o_library (supplied_options opts) = None"
      using nolib by (cases "o_library opts") (auto simp: supplied_options_def)
    have "?F (n, p)" for n
      using l nl by (simp add: filters_as_stated_def cong: option.case_cong)
    then have "(a, p) \<in> set (filter ?F (getEnabledPresets st))"
      "(b, p) \<in> set (filter ?F (getEnabledPresets st))" using ia ib by simp_all
    from count_list_two [OF this neq, of snd p]
    show "2 \<le> count_list (search st opts) p" by (simp add: search_filters)
  }
  {
    assume pos: "0 < fuzzyScore (toLowerCase q) p" and lim: "int (length (getEnabledPresets st)) \<le> limit"
    let ?P = "\<lambda>r. 0 < fuzzyScore (toLowerCase q) (snd r)"
    have "(a, p) \<in> set (filter ?P (getEnabledPresets st))"
      "(b, p) \<in> set (filter ?P (getEnabledPresets st))" using ia ib pos by simp_all
    from count_list_two [OF this neq, of snd p]
    have "2 \<le> count_list (map snd (filter ?P (getEnabledPresets st))) p" by simp
    also have "map snd (filter ?P (getEnabledPresets st))
        = filter (\<lambda>e. 0 < fuzzyScore (toLowerCase q) e) (map snd (getEnabledPresets st))"
      by (simp add: filter_map comp_def)
    also have "count_list \<dots> p = count (mset (fuzzySearch st q limit)) p"
      by (simp only: mset_fuzzySearch_all [OF lim] count_mset)
    finally show "2 \<le> count_list (fuzzySearch st q limit) p" by (simp only: count_mset)
  }
qed

text \<open>
  Claim C10, on the states of the loader. When \<open>enableLibrary a\<close> resolves \<open>a\<close> to a
  sub-index entry whose own name differs, the one loaded library is registered under
  both names and \<open>a\<close> is enabled; the library is then enabled under both names as soon
  as the entry's name is enabled too, before or after. In every state in which one
  library is enabled under two different names, each of its preset entries is a
  candidate once under each name, so at least twice; \<open>search\<close> without a library filter
  returns at least twice each of these entries that it returns at all, and
  \<open>fuzzySearch\<close> with a limit that cuts nothing returns at least twice each of them
  that scores above zero.
\<close>

theorem alias_enabled_twice:
  "(Map_get (loadedLibraries st) a = None \<and> loadRootIndex net st = (Inr rootIdx, st1)
      \<and> firstTierMatch rootIdx a = Some e \<and> s_name e \<noteq> a
      \<and> net (baseUrl st @ ''/'' @ s_path e) = Some resp \<and> ok resp \<and> body resp = JsonIndex idx
     \<longrightarrow> fst (enableLibrary net a st) = Inr ()
        \<and> enabled_as (snd (enableLibrary net a st)) a
             \<lparr>lib_index = idx, lib_baseUrl = dirOf (baseUrl st @ ''/'' @ s_path e)\<rparr>
        \<and> Map_get (loadedLibraries (snd (enableLibrary net a st))) (s_name e)
             = Some \<lparr>lib_index = idx, lib_baseUrl = dirOf (baseUrl st @ ''/'' @ s_path e)\<rparr>
        \<and> (s_name e \<in> set (enabledLibraries st) \<longrightarrow>
             enabled_as (snd (enableLibrary net a st)) (s_name e)
               \<lparr>lib_index = idx, lib_baseUrl = dirOf (baseUrl st @ ''/'' @ s_path e)\<rparr>)
        \<and> enabled_as (snd (enableLibrary net (s_name e) (snd (enableLibrary net a st)))) a
             \<lparr>lib_index = idx, lib_baseUrl = dirOf (baseUrl st @ ''/'' @ s_path e)\<rparr>
        \<and> enabled_as (snd (enableLibrary net (s_name e) (snd (enableLibrary net a st)))) (s_name e)
             \<lparr>lib_index = idx, lib_baseUrl = dirOf (baseUrl st @ ''/'' @ s_path e)\<rparr>)
   \<and> (n1 \<noteq> n2 \<and> enabled_as s n1 lib \<and> enabled_as s n2 lib
      \<and> Preset p \<in> set (i_entries (lib_index lib))
     \<longrightarrow> (n1, p) \<in> set (getEnabledPresets s) \<and> (n2, p) \<in> set (getEnabledPresets s)
        \<and> 2 \<le> count_list (map snd (getEnabledPresets s)) p
        \<and> ((\<forall>l. o_library opts = Some l \<longrightarrow> l = []) \<and> p \<in> set (search s opts)
             \<longrightarrow> 2 \<le> count_list (search s opts) p)
        \<and> (0 < fuzzyScore (toLowerCase q) p \<and> int (length (getEnabledPresets s)) \<le> limit
             \<longrightarrow> 2 \<le> count_list (fuzzySearch s q limit) p))"
proof (intro conjI impI)
  let ?lib = "\<lparr>lib_index = idx, lib_baseUrl = dirOf (baseUrl st @ ''/'' @ s_path e)\<rparr>"
  let ?s1 = "snd (enableLibrary net a st)"
  let ?s2 = "snd (enableLibrary net (s_name e) ?s1)"
  assume h: "Map_get (loadedLibraries st) a = None \<and> loadRootIndex net st = (Inr rootIdx, st1)
      \<and> firstTierMatch rootIdx a = Some e \<and> s_name e \<noteq> a
      \<and> net (baseUrl st @ ''/'' @ s_path e) = Some resp \<and> ok resp \<and> body resp = JsonIndex idx"
  then have nl: "Map_get (loadedLibraries st) a = None"
    and rt: "loadRootIndex net st = (Inr rootIdx, st1)"
    and m: "firstTierMatch rootIdx a = Some e" and ne: "s_name e \<noteq> a"
    and f: "net (baseUrl st @ ''/'' @ s_path e) = Some resp" "ok resp" "body resp = JsonIndex idx"
    by simp_all
  note reg = alias_registered [OF nl rt m ne f]
  show "fst (enableLibrary net a st) = Inr ()" by (rule reg(1))
  show a1: "enabled_as ?s1 a ?lib"
    using reg(2,3) by (simp add: enabled_as_def Set_add_member)
  show "Map_get (loadedLibraries ?s1) (s_name e) = Some ?lib" by (rule reg(4))
  show "enabled_as ?s1 (s_name e) ?lib" if "s_name e \<in> set (enabledLibraries st)"
    using that reg(2,4) by (simp add: enabled_as_def Set_add_member)
  have s2: "?s2 = ?s1\<lparr>enabledLibraries := Set_add (enabledLibraries ?s1) (s_name e)\<rparr>"
    by (simp add: reg(5))
  show "enabled_as ?s2 a ?lib"
    using a1 unfolding s2 by (simp add: enabled_as_def Set_add_member)
  show "enabled_as ?s2 (s_name e) ?lib"
    using reg(4) unfolding s2 by (simp add: enabled_as_def Set_add_member)
next
  assume h: "n1 \<noteq> n2 \<and> enabled_as s n1 lib \<and> enabled_as s n2 lib
      \<and> Preset p \<in> set (i_entries (lib_index lib))"
  then have ab: "n1 \<noteq> n2" and ea: "enabled_as s n1 lib" and eb: "enabled_as s n2 lib"
    and p: "Preset p \<in> set (i_entries (lib_index lib))" by simp_all
  note tw = twice_enumerated [OF ab ea eb p]
  show "(n1, p) \<in> set (getEnabledPresets s)" by (rule tw(1))
  show "(n2, p) \<in> set (getEnabledPresets s)" by (rule tw(2))
  show "2 \<le> count_list (map snd (getEnabledPresets s)) p" by (rule tw(3))
  show "2 \<le> count_list (search s opts) p"
    if "(\<forall>l. o_library opts = Some l \<longrightarrow> l = []) \<and> p \<in> set (search s opts)"
    using that tw(4) [of opts] by blast
  show "2 \<le> count_list (fuzzySearch s q limit) p"
    if "0 < fuzzyScore (toLowerCase q) p \<and> int (length (getEnabledPresets s)) \<le> limit"
    using that tw(5) [of q limit] by blast
qed

text \<open>The library listed as \<open>FluidR3 GM\<close>, enabled as \<open>FluidR3_GM\<close> and then under its
  listed name: the piano comes twice out of both searches.\<close>

theorem alias_enabled_twice_witness:
  "search (snd (enableLibrary (catalogue rootSpaced) ''FluidR3 GM''
             (snd (enableLibrary (catalogue rootSpaced) ''FluidR3_GM'' loader0)))) no_options
     = [piano, pad, piano, pad]
   \<and> 2 \<le> count_list (search (snd (enableLibrary (catalogue rootSpaced) ''FluidR3 GM''
             (snd (enableLibrary (catalogue rootSpaced) ''FluidR3_GM'' loader0)))) no_options) piano
   \<and> 2 \<le> count_list (fuzzySearch (snd (enableLibrary (catalogue rootSpaced) ''FluidR3 GM''
             (snd (enableLibrary (catalogue rootSpaced) ''FluidR3_GM'' loader0)))) ''piano'' 20) piano
   \<and> fuzzySearch (snd (enableLibrary (catalogue rootSpaced) ''FluidR3 GM''
             (snd (enableLibrary (catalogue rootSpaced) ''FluidR3_GM'' loader0)))) ''piano'' 20
     = [piano, piano]"
proof -
  let ?net = "catalogue rootSpaced"
  let ?e = "\<lparr>s_name = ''FluidR3 GM'', s_path = ''FluidR3_GM/index.json'', s_description = None,
             s_presetCount = None\<rparr>"
  let ?lib = "\<lparr>lib_index = fluid, lib_baseUrl = dirOf (baseUrl loader0 @ ''/'' @ s_path ?e)\<rparr>"
  let ?st2 = "snd (enableLibrary ?net (s_name ?e) (snd (enableLibrary ?net ''FluidR3_GM'' loader0)))"
  have nl: "Map_get (loadedLibraries loader0) ''FluidR3_GM'' = None" by code_simp
  have "fst (loadRootIndex ?net loader0) = Inr rootSpaced" by code_simp
  then have rt: "loadRootIndex ?net loader0 = (Inr rootSpaced, snd (loadRootIndex ?net loader0))"
    by (metis prod.collapse)
  have m: "firstTierMatch rootSpaced ''FluidR3_GM'' = Some ?e" by code_simp
  have ne: "s_name ?e \<noteq> ''FluidR3_GM''" by simp
  have f: "?net (baseUrl loader0 @ ''/'' @ s_path ?e) = Some \<lparr>status = 200, body = JsonIndex fluid\<rparr>"
    by code_simp
  have k: "ok \<lparr>status = 200, body = JsonIndex fluid\<rparr>" by (simp add: ok_def)
  have b: "body \<lparr>status = 200, body = JsonIndex fluid\<rparr> = JsonIndex fluid" by simp
  note T = alias_enabled_twice [of loader0 "''FluidR3_GM''" ?net rootSpaced
      "snd (loadRootIndex ?net loader0)" ?e "\<lparr>status = 200, body = JsonIndex fluid\<rparr>" fluid
      "''FluidR3_GM''" "''FluidR3 GM''" ?st2 ?lib piano no_options "''piano''" 20]
  from T [THEN conjunct1, THEN mp, OF conjI [OF nl conjI [OF rt conjI [OF m conjI [OF ne
      conjI [OF f conjI [OF k b]]]]]]]
  have ea: "enabled_as ?st2 ''FluidR3_GM'' ?lib" and eb: "enabled_as ?st2 ''FluidR3 GM'' ?lib"
    by simp_all
  have ab: "''FluidR3_GM'' \<noteq> ''FluidR3 GM''" by simp
  have p: "Preset piano \<in> set (i_entries (lib_index ?lib))" by (simp add: fluid_def)
  note S = T [THEN conjunct2, THEN mp, OF conjI [OF ab conjI [OF ea conjI [OF eb p]]]]
  have s: "search ?st2 no_options = [piano, pad, piano, pad]" by code_simp
  have nolib: "\<forall>l. o_library no_options = Some l \<longrightarrow> l = []" by (simp add: no_options_def)
  have inres: "piano \<in> set (search ?st2 no_options)" unfolding s by simp
  have c1: "2 \<le> count_list (search ?st2 no_options) piano"
    using S nolib inres by blast
  have pos: "0 < fuzzyScore (toLowerCase ''piano'') piano" by code_simp
  have lim: "int (length (getEnabledPresets ?st2)) \<le> 20" by code_simp
  have c2: "2 \<le> count_list (fuzzySearch ?st2 ''piano'' 20) piano"
    using S pos lim by blast
  have F: "fuzzySearch ?st2 ''piano'' 20 = [piano, piano]" by code_simp
  show ?thesis using s c1 c2 F by simp
qed

text \<open>In the same state, a library filter that matches one of the two names, and a
  limit of one, leave the piano once in the results.\<close>

theorem alias_once_counterexample:
  "enabledLibraries (snd (enableLibrary (catalogue rootSpaced) ''FluidR3 GM''
             (snd (enableLibrary (catalogue rootSpaced) ''FluidR3_GM'' loader0))))
     = [''FluidR3_GM'', ''FluidR3 GM'']
   \<and> map (map_option lib_index \<circ> Map_get (loadedLibraries (snd (enableLibrary (catalogue rootSpaced) ''FluidR3 GM''
             (snd (enableLibrary (catalogue rootSpaced) ''FluidR3_GM'' loader0))))))
        [''FluidR3_GM'', ''FluidR3 GM''] = [Some fluid, Some fluid]
   \<and> search (snd (enableLibrary (catalogue rootSpaced) ''FluidR3 GM''
             (snd (enableLibrary (catalogue rootSpaced) ''FluidR3_GM'' loader0))))
        (no_options\<lparr>o_library := Some ''FluidR3_GM''\<rparr>) = [piano, pad]
   \<and> fuzzySearch (snd (enableLibrary (catalogue rootSpaced) ''FluidR3 GM''
             (snd (enableLibrary (catalogue rootSpaced) ''FluidR3_GM'' loader0)))) ''piano'' 1
     = [piano]"
  by code_simp

section \<open>Verification: audio decoding\<close>

lemma LRU_get_miss: "\<not> LRU_has c k \<Longrightarrow> LRU_get c k = (None, c)"
proof -
  assume "\<not> LRU_has c k"
  then have "map_of (cache c) k = None"
    by (simp add: LRU_has_def Map_has_def map_of_eq_None_iff)
  then show ?thesis by (simp add: LRU_get_def Map_get_def)
qed

lemma length_float32_of_bytes: "length (float32_of_bytes bs) = length bs div 4"
  by (induction bs rule: float32_of_bytes.induct) simp_all

lemma float32_of_bytes_nth:
  "i < length bs div 4 \<Longrightarrow>
   float32_of_bytes bs ! i =
     (ucast (bs ! (4 * i)) OR push_bit 8 (ucast (bs ! (4 * i + 1)))
      OR push_bit 16 (ucast (bs ! (4 * i + 2))) OR push_bit 24 (ucast (bs ! (4 * i + 3))))"
proof (induction bs arbitrary: i rule: float32_of_bytes.induct)
  case (1 b0 b1 b2 b3 rest)
  show ?case
  proof (cases i)
    case 0
    then show ?thesis by simp
  next
    case (Suc j)
    then have "j < length rest div 4" using "1.prems" by simp
    from "1.IH"[OF this] show ?thesis using Suc by (simp add: add.commute)
  qed
qed simp_all

lemma decodeAudio_pcm_trace:
  "trace (snd (decodeAudio net (InlinePcm data rate) u st)) = trace st"
  by (simp add: decodeAudio_def Let_def split: option.splits prod.splits sum.splits)

lemma LRU_set_get: "Map_get (cache (LRU_set c k v)) k = Some v"
  by (simp add: LRU_set_def Let_def Map_get_def Map_set_def update_conv')

lemma decodeAudio_pcm_miss:
  assumes "audioContext st = Some ctx"
    and "\<not> LRU_has (audioCache st) (''pcm:'' @ take 32 data)"
    and "atob data = Some bytes" and "length bytes = 4 * n" and "0 < n"
    and "rateSupported ctx rate"
  shows "decodeAudio net (InlinePcm data rate) presetUrl st
      = (Inr \<lparr>numberOfChannels = 1, ab_length = n, sampleRate = rate,
               channelData = [float32_of_bytes bytes]\<rparr>,
         st\<lparr>audioCache := LRU_set (audioCache st) (''pcm:'' @ take 32 data)
               \<lparr>numberOfChannels = 1, ab_length = n, sampleRate = rate,
                channelData = [float32_of_bytes bytes]\<rparr>\<rparr>)"
proof -
  let ?buf = "\<lparr>numberOfChannels = 1, ab_length = n, sampleRate = rate,
                    channelData = [float32_of_bytes bytes]\<rparr>"
  let ?key = "''pcm:'' @ take 32 data"
  have len: "length (float32_of_bytes bytes) = n" using assms by (simp add: length_float32_of_bytes)
  have miss: "LRU_get (audioCache st) ?key = (None, audioCache st)"
    using assms by (simp add: LRU_get_miss)
  have fa: "new_Float32Array bytes = Inr (float32_of_bytes bytes)"
    using assms by (simp add: new_Float32Array_def)
  have cb: "createBuffer ctx 1 n rate = Inr \<lparr>numberOfChannels = 1, ab_length = n, sampleRate = rate,
                    channelData = [replicate n 0]\<rparr>"
    using assms by (simp add: createBuffer_def)
  have cp: "copyToChannel \<lparr>numberOfChannels = 1, ab_length = n, sampleRate = rate,
                    channelData = [replicate n 0]\<rparr> (float32_of_bytes bytes) 0 = ?buf"
    using len by (simp add: copyToChannel_def)
  show ?thesis
    using assms miss fa cb cp len by (simp add: decodeAudio_def Let_def)
qed

lemma decodeAudio_pcm_hit:
  assumes "audioContext st = Some ctx"
    and "Map_get (cache (audioCache st)) (''pcm:'' @ take 32 data) = Some buf"
  shows "fst (decodeAudio net (InlinePcm data rate) presetUrl st) = Inr buf"
  using assms by (simp add: decodeAudio_def Let_def LRU_get_def)

text \<open>
  Claim C8, as the code has it: decoding an \<open>inlinePcm\<close> reference never fetches and
  never calls \<open>decodeAudioData\<close>; and when the audio cache has no entry under the
  key of the payload (the audio context being set, the payload being base64 of
  \<open>4 * n\<close> bytes with \<open>n > 0\<close>, the rate one the context supports), the result is a buffer
  of one channel, of length \<open>n\<close>, at the declared sample rate, whose samples are the
  payload's bytes taken four at a time, least significant byte first; the buffer is
  then cached under that key.
\<close>

theorem decodeAudio_inlinePcm:
  "trace (snd (decodeAudio net (InlinePcm data rate) presetUrl st)) = trace st
   \<and> (audioContext st = Some ctx \<and> \<not> LRU_has (audioCache st) (''pcm:'' @ take 32 data)
        \<and> atob data = Some bytes \<and> length bytes = 4 * n \<and> 0 < n \<and> rateSupported ctx rate
      \<longrightarrow> fst (decodeAudio net (InlinePcm data rate) presetUrl st)
            = Inr \<lparr>numberOfChannels = 1, ab_length = n, sampleRate = rate,
                    channelData = [float32_of_bytes bytes]\<rparr>
          \<and> length (float32_of_bytes bytes) = n
          \<and> (\<forall>i < n. float32_of_bytes bytes ! i =
                 (ucast (bytes ! (4 * i)) OR push_bit 8 (ucast (bytes ! (4 * i + 1)))
                  OR push_bit 16 (ucast (bytes ! (4 * i + 2)))
                  OR push_bit 24 (ucast (bytes ! (4 * i + 3)))))
          \<and> Map_get (cache (audioCache (snd (decodeAudio net (InlinePcm data rate) presetUrl st))))
                (''pcm:'' @ take 32 data)
              = Some \<lparr>numberOfChannels = 1, ab_length = n, sampleRate = rate,
                       channelData = [float32_of_bytes bytes]\<rparr>)"
proof (intro conjI impI)
  show "trace (snd (decodeAudio net (InlinePcm data rate) presetUrl st)) = trace st"
    by (rule decodeAudio_pcm_trace)
next
  assume h: "audioContext st = Some ctx \<and> \<not> LRU_has (audioCache st) (''pcm:'' @ take 32 data)
        \<and> atob data = Some bytes \<and> length bytes = 4 * n \<and> 0 < n \<and> rateSupported ctx rate"
  let ?buf = "\<lparr>numberOfChannels = 1, ab_length = n, sampleRate = rate,
                    channelData = [float32_of_bytes bytes]\<rparr>"
  let ?key = "''pcm:'' @ take 32 data"
  have d: "decodeAudio net (InlinePcm data rate) presetUrl st
      = (Inr ?buf, st\<lparr>audioCache := LRU_set (audioCache st) ?key ?buf\<rparr>)"
  proof (rule decodeAudio_pcm_miss)
    show "audioContext st = Some ctx" using h by blast
    show "\<not> LRU_has (audioCache st) ?key" using h by blast
    show "atob data = Some bytes" using h by blast
    show "length bytes = 4 * n" using h by blast
    show "0 < n" using h by blast
    show "rateSupported ctx rate" using h by blast
  qed
  show "fst (decodeAudio net (InlinePcm data rate) presetUrl st) = Inr ?buf" by (simp only: d fst_conv)
  show "length (float32_of_bytes bytes) = n" using h by (simp add: length_float32_of_bytes)
  show "\<forall>i < n. float32_of_bytes bytes ! i =
                 (ucast (bytes ! (4 * i)) OR push_bit 8 (ucast (bytes ! (4 * i + 1)))
                  OR push_bit 16 (ucast (bytes ! (4 * i + 2)))
                  OR push_bit 24 (ucast (bytes ! (4 * i + 3))))"
    using h by (simp add: float32_of_bytes_nth)
  show "Map_get (cache (audioCache (snd (decodeAudio net (InlinePcm data rate) presetUrl st)))) ?key
      = Some ?buf"
    unfolding d by (simp add: LRU_set_get del: append.simps)
qed

lemma examples_audio:
  "audioContext audioLoader = Some hostContext"
  "\<not> LRU_has (audioCache audioLoader) k"
  "trace audioLoader = []"
  "rateSupported hostContext 22050" "rateSupported hostContext 44100"
  by (simp_all add: audioLoader_def setAudioContext_def loader0_def new_PresetLoader_def
      LRU_has_def Map_has_def LRU_new_def hostContext_def)

lemma fourSamples_bytes:
  "atob fourSamples = Some [0, 0, 128, 63, 0, 0, 0, 64, 0, 0, 64, 64, 0, 0, 128, 64]"
  by code_simp

lemma fourSamples_floats:
  "float32_of_bytes [0, 0, 128, 63, 0, 0, 0, 64, 0, 0, 64, 64, 0, 0, 128, 64]
     = [0x3F800000, 0x40000000, 0x40400000, 0x40800000]"
  by code_simp

text \<open>Four samples at 22050 Hz on a new engine with an audio context.\<close>

theorem decodeAudio_inlinePcm_witness:
  "audioContext audioLoader = Some hostContext
   \<and> \<not> LRU_has (audioCache audioLoader) (''pcm:'' @ take 32 fourSamples)
   \<and> atob fourSamples = Some [0, 0, 128, 63, 0, 0, 0, 64, 0, 0, 64, 64, 0, 0, 128, 64]
   \<and> rateSupported hostContext 22050
   \<and> fst (decodeAudio (catalogue rootExact) (InlinePcm fourSamples 22050) None audioLoader)
       = Inr \<lparr>numberOfChannels = 1, ab_length = 4, sampleRate = 22050,
               channelData = [[0x3F800000, 0x40000000, 0x40400000, 0x40800000]]\<rparr>
   \<and> trace (snd (decodeAudio (catalogue rootExact) (InlinePcm fourSamples 22050) None audioLoader)) = []"
proof -
  let ?bytes = "[0, 0, 128, 63, 0, 0, 0, 64, 0, 0, 64, 64, 0, 0, 128, 64] :: 8 word list"
  note a = examples_audio(1) and b = examples_audio(2)[of "''pcm:'' @ take 32 fourSamples"]
    and t = examples_audio(3) and e = examples_audio(4) and c = fourSamples_bytes
  have d: "length ?bytes = 4 * 4" by simp
  have p: "(0::nat) < 4" by simp
  note T = decodeAudio_inlinePcm[of "catalogue rootExact" fourSamples 22050 None audioLoader
      hostContext ?bytes 4]
  have hyp: "audioContext audioLoader = Some hostContext
        \<and> \<not> LRU_has (audioCache audioLoader) (''pcm:'' @ take 32 fourSamples)
        \<and> atob fourSamples = Some ?bytes \<and> length ?bytes = 4 * 4 \<and> (0::nat) < 4
        \<and> rateSupported hostContext 22050"
    by (intro conjI a b c d e p)
  have r: "fst (decodeAudio (catalogue rootExact) (InlinePcm fourSamples 22050) None audioLoader)
       = Inr \<lparr>numberOfChannels = 1, ab_length = 4, sampleRate = 22050,
               channelData = [float32_of_bytes ?bytes]\<rparr>"
    by (rule T[THEN conjunct2, rule_format, OF hyp, THEN conjunct1])
  have tr: "trace (snd (decodeAudio (catalogue rootExact) (InlinePcm fourSamples 22050) None audioLoader))
      = []" using T[THEN conjunct1] t by (simp only:)
  show ?thesis
    by (intro conjI a b c e tr) (simp only: r fourSamples_floats)
qed

text \<open>The same payload decoded first at 44100 Hz and then at 22050 Hz: the second call
  hits the cache, whose key leaves the rate out, and returns the buffer at 44100 Hz.\<close>

theorem decodeAudio_inlinePcm_cached_counterexample:
  "map_sum id sampleRate
     (fst (decodeAudio (catalogue rootExact) (InlinePcm fourSamples 22050) None
        (snd (decodeAudio (catalogue rootExact) (InlinePcm fourSamples 44100) None audioLoader))))
   = Inr 44100"
proof -
  let ?bytes = "[0, 0, 128, 63, 0, 0, 0, 64, 0, 0, 64, 64, 0, 0, 128, 64] :: 8 word list"
  let ?buf = "\<lparr>numberOfChannels = 1, ab_length = 4, sampleRate = 44100,
               channelData = [float32_of_bytes ?bytes]\<rparr>"
  let ?key = "''pcm:'' @ take 32 fourSamples"
  have d: "length ?bytes = 4 * 4" by simp
  have first: "decodeAudio (catalogue rootExact) (InlinePcm fourSamples 44100) None audioLoader
      = (Inr ?buf, audioLoader\<lparr>audioCache := LRU_set (audioCache audioLoader) ?key ?buf\<rparr>)"
    by (rule decodeAudio_pcm_miss[OF examples_audio(1) examples_audio(2) fourSamples_bytes d _
          examples_audio(5)]) simp
  let ?st1 = "audioLoader\<lparr>audioCache := LRU_set (audioCache audioLoader) ?key ?buf\<rparr>"
  have c1: "audioContext ?st1 = Some hostContext" by (simp add: examples_audio(1))
  have c2: "Map_get (cache (audioCache ?st1)) ?key = Some ?buf"
    by (simp add: LRU_set_get del: append.simps)
  have "fst (decodeAudio (catalogue rootExact) (InlinePcm fourSamples 22050) None ?st1) = Inr ?buf"
    by (rule decodeAudio_pcm_hit[OF c1 c2])
  then show ?thesis unfolding first snd_conv by simp
qed

section \<open>Verification: tasks and \<open>Promise.all\<close>\<close>

lemma run_task_Wait [simp]: "run_task (Wait seg) st = run_task (fst (seg st)) (snd (seg st))"
  by (simp add: split_beta)

lemma await_task_Wait [simp]:
  "await_task (Wait seg) k = Wait (\<lambda>st. (await_task (fst (seg st)) k, snd (seg st)))"
  by (simp add: fun_eq_iff split_beta)

lemma catching_Wait [simp]:
  "catching (Wait seg) h st = (Wait (\<lambda>s. catching (fst (seg s)) h (snd (seg s))), st)"
  by (simp add: fun_eq_iff split_beta)

lemma finish_task_Wait [simp]:
  "finish_task (Wait seg) k = Wait (\<lambda>st. (finish_task (fst (seg st)) k, snd (seg st)))"
  by (simp add: fun_eq_iff split_beta)

declare run_task.simps(2) [simp del] await_task.simps(2) [simp del]
  catching.simps(2) [simp del] finish_task.simps(2) [simp del]

lemma run_alt: "run f st = run_task (fst (f st)) (snd (f st))"
  by (simp add: run_def split_beta)

lemma await_call_alt: "await_call f k st = (await_task (fst (f st)) k, snd (f st))"
  by (simp add: await_call_def split_beta)

lemma task_induct [case_names Done Wait]:
  assumes "\<And>r. P (Done r)" and "\<And>seg. (\<And>st. P (fst (seg st))) \<Longrightarrow> P (Wait seg)"
  shows "P t"
proof (induction t)
  case (Done r) show ?case by (rule assms(1))
next
  case (Wait seg)
  show ?case
  proof (rule assms(2))
    fix st
    have "seg st \<in> range seg" by simp
    moreover have "fst (seg st) \<in> Basic_BNFs.fsts (seg st)" by (cases "seg st") simp
    ultimately show "P (fst (seg st))" by (rule Wait.IH)
  qed
qed

lemma may_settle_Done [simp]: "may_settle (Done r) r' \<longleftrightarrow> r' = r"
  by (auto elim: may_settle.cases intro: may_settle.intros)

lemma may_settle_Wait [simp]: "may_settle (Wait seg) r \<longleftrightarrow> (\<exists>st. may_settle (fst (seg st)) r)"
  by (auto elim: may_settle.cases intro: may_settle.intros)

lemma may_settle_settled_later [simp]: "may_settle (settled_later r0) r \<longleftrightarrow> r = r0"
  by (simp add: settled_later_def)

lemma run_may_settle: "may_settle t (fst (run_task t st))"
proof (induction t arbitrary: st rule: task_induct)
  case (Done r) show ?case by simp
next
  case (Wait seg)
  have "may_settle (fst (seg st)) (fst (run_task (fst (seg st)) (snd (seg st))))"
    by (rule Wait.IH)
  then show ?case by auto
qed

lemma run_await_task:
  "run_task (await_task t k) st =
     (case run_task t st of (Inl err, s) \<Rightarrow> (Inl err, s) | (Inr x, s) \<Rightarrow> run (k x) s)"
proof (induction t arbitrary: st rule: task_induct)
  case (Done r)
  show ?case by (cases r) (simp_all add: run_alt)
next
  case (Wait seg)
  show ?case
    using Wait.IH [of st "snd (seg st)"] by simp
qed

lemma run_await_call:
  "run (await_call f k) st =
     (case run f st of (Inl err, s) \<Rightarrow> (Inl err, s) | (Inr x, s) \<Rightarrow> run (k x) s)"
  by (simp add: run_alt await_call_alt run_await_task)

lemma run_return [simp]: "run (return x) st = (Inr x, st)"
  by (simp add: run_alt return_def)

lemma run_throw [simp]: "run (throw err) st = (Inl err, st)"
  by (simp add: run_alt throw_def)

lemma run_settled_later [simp]: "run_task (settled_later r) st = (r, st)"
  by (simp add: settled_later_def)

lemma may_settle_await_task:
  "may_settle (await_task t k) r \<Longrightarrow>
     (\<exists>err. r = Inl err \<and> may_settle t (Inl err)) \<or>
     (\<exists>x st. may_settle t (Inr x) \<and> may_settle (fst (k x st)) r)"
proof (induction t arbitrary: r rule: task_induct)
  case (Done r0)
  then show ?case by (cases r0) auto
next
  case (Wait seg)
  from Wait.prems obtain st where "may_settle (await_task (fst (seg st)) k) r"
    by auto
  from Wait.IH [OF this] show ?case by auto
qed

lemma may_settle_finish_task:
  "may_settle (finish_task t k) r \<Longrightarrow> \<exists>r0. may_settle t r0 \<and> may_settle (k r0) r"
proof (induction t arbitrary: r rule: task_induct)
  case (Done r0)
  then show ?case by auto
next
  case (Wait seg)
  from Wait.prems obtain st where "may_settle (finish_task (fst (seg st)) k) r"
    by auto
  from Wait.IH [OF this] show ?case by auto
qed





lemma length_start_all [simp]: "length (fst (start_all fs st)) = length fs"
  by (induction fs arbitrary: st) (simp_all add: split_beta)

lemma start_all_snd_append:
  "snd (start_all (fs @ gs) st) = snd (start_all gs (snd (start_all fs st)))"
  by (induction fs arbitrary: st) (simp_all add: split_beta)

lemma start_all_nth:
  "i < length fs \<Longrightarrow>
     fst (start_all fs st) ! i = fst ((fs ! i) (snd (start_all (take i fs) st)))"
proof (induction fs arbitrary: st i)
  case Nil then show ?case by simp
next
  case (Cons f fs)
  show ?case
  proof (cases i)
    case 0 then show ?thesis by (simp add: split_beta)
  next
    case (Suc j)
    with Cons.prems have "j < length fs" by simp
    from Cons.IH [OF this, of "snd (f st)"] Suc show ?thesis by (simp add: split_beta)
  qed
qed

lemma values_of_results:
  "\<forall>r \<in> set rs. \<exists>x. r = Inr x \<Longrightarrow>
     map Inr (concat (map (\<lambda>r. case r of Inl _ \<Rightarrow> [] | Inr x \<Rightarrow> [x]) rs)) = rs"
  by (induction rs) auto

lemma finish_all_outcome:
  assumes "may_settle (finish_all rest rejected rs) res"
    and "length rs + length rest = length ts"
    and "\<forall>j < length rs. may_settle (ts ! j) (rs ! j)"
    and "\<forall>j < length rest. \<forall>r. may_settle (rest ! j) r \<longrightarrow> may_settle (ts ! (length rs + j)) r"
    and "\<forall>err. rejected = Some err \<longrightarrow> (\<exists>i < length ts. may_settle (ts ! i) (Inl err))"
    and "rejected = None \<longrightarrow> (\<forall>r \<in> set rs. \<exists>x. r = Inr x)"
  shows "all_outcome ts res"
  using assms
proof (induction rest arbitrary: rejected rs)
  case Nil
  show ?case
  proof (cases rejected)
    case (Some err)
    with Nil show ?thesis by (simp add: all_outcome_def all_result_def)
  next
    case None
    let ?xs = "concat (map (\<lambda>r. case r of Inl _ \<Rightarrow> [] | Inr x \<Rightarrow> [x]) rs)"
    from None Nil.prems(6) have eq: "map Inr ?xs = rs" by (intro values_of_results) simp
    then have len: "length ?xs = length rs" by (metis length_map)
    have "\<forall>i < length ts. may_settle (ts ! i) (Inr (?xs ! i))"
    proof (intro allI impI)
      fix i assume i: "i < length ts"
      with Nil.prems(2) len have "i < length ?xs" by simp
      then have "map Inr ?xs ! i = Inr (?xs ! i)" by (rule nth_map)
      moreover have "map Inr ?xs ! i = rs ! i" by (simp only: eq)
      ultimately have "Inr (?xs ! i) = rs ! i" by (rule subst)
      with Nil.prems(3) i Nil.prems(2) show "may_settle (ts ! i) (Inr (?xs ! i))" by simp
    qed
    with None Nil.prems(1,2) len show ?thesis
      by (simp add: all_outcome_def all_result_def)
  qed
next
  case (Cons t rest)
  from Cons.prems(1) obtain r0 where r0: "may_settle t r0"
    and fin: "may_settle (finish_all rest (note_rejection rejected r0) (rs @ [r0])) res"
    using may_settle_finish_task [of t _ res] by auto
  from Cons.prems(4) r0 have t0: "may_settle (ts ! length rs) r0" by force
  show ?case
  proof (rule Cons.IH [OF fin])
    show "length (rs @ [r0]) + length rest = length ts" using Cons.prems(2) by simp
    show "\<forall>j<length (rs @ [r0]). may_settle (ts ! j) ((rs @ [r0]) ! j)"
      using Cons.prems(3) t0 by (auto simp: nth_append less_Suc_eq)
    show "\<forall>j<length rest. \<forall>r. may_settle (rest ! j) r \<longrightarrow>
            may_settle (ts ! (length (rs @ [r0]) + j)) r"
    proof (intro allI impI)
      fix j r assume "j < length rest" "may_settle (rest ! j) r"
      then have "Suc j < length (t # rest)" "may_settle ((t # rest) ! Suc j) r" by simp_all
      with Cons.prems(4) have "may_settle (ts ! (length rs + Suc j)) r" by blast
      then show "may_settle (ts ! (length (rs @ [r0]) + j)) r" by simp
    qed
    show "\<forall>err. note_rejection rejected r0 = Some err \<longrightarrow>
            (\<exists>i<length ts. may_settle (ts ! i) (Inl err))"
    proof (intro allI impI)
      fix err assume n: "note_rejection rejected r0 = Some err"
      show "\<exists>i<length ts. may_settle (ts ! i) (Inl err)"
      proof (cases rejected)
        case (Some e)
        with n Cons.prems(5) show ?thesis by (simp add: note_rejection_def)
      next
        case None
        with n have "r0 = Inl err" by (simp add: note_rejection_def split: sum.splits)
        with t0 Cons.prems(2) show ?thesis by (intro exI [of _ "length rs"]) simp
      qed
    qed
    show "note_rejection rejected r0 = None \<longrightarrow> (\<forall>r\<in>set (rs @ [r0]). \<exists>x. r = Inr x)"
      using Cons.prems(6)
      by (auto simp: note_rejection_def split: option.splits sum.splits)
  qed
qed

lemma resume_outcome:
  assumes "length cur = length ts"
    and "\<forall>i < length ts. \<forall>r. may_settle (cur ! i) r \<longrightarrow> may_settle (ts ! i) r"
    and "\<forall>err. rejected = Some err \<longrightarrow> (\<exists>i < length ts. may_settle (ts ! i) (Inl err))"
  shows "length (snd (fst (resume i (rejected, cur) st))) = length ts \<and>
         (\<forall>j < length ts. \<forall>r. may_settle (snd (fst (resume i (rejected, cur) st)) ! j) r
              \<longrightarrow> may_settle (ts ! j) r) \<and>
         (\<forall>err. fst (fst (resume i (rejected, cur) st)) = Some err
              \<longrightarrow> (\<exists>i < length ts. may_settle (ts ! i) (Inl err)))"
proof (cases "i < length cur")
  case False
  with assms show ?thesis by (simp add: resume_def)
next
  case True
  show ?thesis
  proof (cases "cur ! i")
    case (Done r)
    with True assms show ?thesis by (simp add: resume_def)
  next
    case (Wait seg)
    let ?t = "fst (seg st)"
    have desc: "may_settle (ts ! i) r" if "may_settle ?t r" for r
    proof -
      from that have "may_settle (Wait seg) r" by auto
      with assms(1,2) True Wait show ?thesis by metis
    qed
    have res: "resume i (rejected, cur) st =
        ((case ?t of Done r \<Rightarrow> note_rejection rejected r | Wait _ \<Rightarrow> rejected, cur[i := ?t]),
         snd (seg st))"
      using True Wait by (simp add: resume_def split_beta cong: task.case_cong)
    have "\<forall>j < length ts. \<forall>r. may_settle (cur[i := ?t] ! j) r \<longrightarrow> may_settle (ts ! j) r"
    proof (intro allI impI)
      fix j r assume j: "j < length ts" and m: "may_settle (cur[i := ?t] ! j) r"
      show "may_settle (ts ! j) r"
      proof (cases "j = i")
        case True
        with m j assms(1) have "may_settle ?t r" by simp
        with True show ?thesis by (simp add: desc)
      next
        case False
        with m have "may_settle (cur ! j) r" by simp
        with assms(2) j show ?thesis by blast
      qed
    qed
    moreover have "\<forall>err. (case ?t of Done r \<Rightarrow> note_rejection rejected r | Wait _ \<Rightarrow> rejected)
                      = Some err \<longrightarrow> (\<exists>i < length ts. may_settle (ts ! i) (Inl err))"
    proof (intro allI impI)
      fix err
      assume n: "(case ?t of Done r \<Rightarrow> note_rejection rejected r | Wait _ \<Rightarrow> rejected) = Some err"
      show "\<exists>i < length ts. may_settle (ts ! i) (Inl err)"
      proof (cases rejected)
        case (Some e)
        with n have "e = err" by (simp add: note_rejection_def split: task.splits)
        with Some assms(3) show ?thesis by simp
      next
        case None
        with n have "?t = Done (Inl err)"
          by (simp add: note_rejection_def split: task.splits sum.splits)
        then have "may_settle ?t (Inl err)" by simp
        from desc [OF this] True assms(1) show ?thesis by auto
      qed
    qed
    ultimately show ?thesis using assms(1) by (simp add: res)
  qed
qed

lemma Promise_all_from_outcome:
  assumes "may_settle (Promise_all_from schedule (rejected, cur)) res"
    and "length cur = length ts"
    and "\<forall>i < length ts. \<forall>r. may_settle (cur ! i) r \<longrightarrow> may_settle (ts ! i) r"
    and "\<forall>err. rejected = Some err \<longrightarrow> (\<exists>i < length ts. may_settle (ts ! i) (Inl err))"
  shows "all_outcome ts res"
  using assms
proof (induction schedule arbitrary: rejected cur)
  case Nil
  then show ?case by (intro finish_all_outcome [of cur rejected "[]" res ts]) simp_all
next
  case (Cons i schedule)
  show ?case
  proof (cases "list_all settled cur")
    case True
    with Cons.prems show ?thesis
      by (intro finish_all_outcome [of cur rejected "[]" res ts]) simp_all
  next
    case False
    with Cons.prems(1) obtain st where
      m: "may_settle (Promise_all_from schedule (fst (resume i (rejected, cur) st))) res"
      by (auto simp: split_beta)
    obtain rej1 cur1 where p: "fst (resume i (rejected, cur) st) = (rej1, cur1)"
      by (cases "fst (resume i (rejected, cur) st)")
    from resume_outcome [OF Cons.prems(2,3,4), of i st] p
    show ?thesis by (intro Cons.IH [of rej1 cur1]) (use m p in simp_all)
  qed
qed

lemma Promise_all_outcome:
  "may_settle (Promise_all schedule ts) res \<Longrightarrow> all_outcome ts res"
proof -
  assume m: "may_settle (Promise_all schedule ts) res"
  have "\<forall>err. first_rejection ts = Some err \<longrightarrow> (\<exists>i < length ts. may_settle (ts ! i) (Inl err))"
  proof (intro allI impI)
    fix err assume f: "first_rejection ts = Some err"
    from f obtain rest where
      "concat (map (\<lambda>t. case t of Done (Inl err) \<Rightarrow> [err] | _ \<Rightarrow> []) ts) = err # rest"
      by (auto simp: first_rejection_def split: list.splits)
    then have "err \<in> set (concat (map (\<lambda>t. case t of Done (Inl err) \<Rightarrow> [err] | _ \<Rightarrow> []) ts))"
      by (metis list.set_intros(1))
    then obtain t where "t \<in> set ts" "t = Done (Inl err)"
      by (auto split: task.splits sum.splits)
    then show "\<exists>i < length ts. may_settle (ts ! i) (Inl err)"
      by (auto simp: in_set_conv_nth)
  qed
  with m show ?thesis
    unfolding Promise_all_def
    by (intro Promise_all_from_outcome [of schedule "first_rejection ts" ts res ts]) simp_all
qed

text \<open>The uninterrupted run of each asynchronous method is the function given for it.\<close>

lemma run_Done [simp]: "run (\<lambda>s. (Done r, f s)) st = (r, f st)"
  by (simp add: run_alt)

lemma run_return_upd [simp]: "run (\<lambda>s. return x (f s)) st = (Inr x, f st)"
  by (simp add: run_alt return_def)

lemma run_fetch_async:
  "run (fetch_async net url) st =
     (case net url of None \<Rightarrow> Inl (NetworkError url) | Some resp \<Rightarrow> Inr resp,
      st\<lparr>trace := trace st @ [Fetched url]\<rparr>)"
  by (simp add: run_alt fetch_async_def)

lemma run_json_index:
  "run (json_index url resp) st =
     (case body resp of JsonIndex idx \<Rightarrow> Inr idx | _ \<Rightarrow> Inl (JsonError url), st)"
  by (simp add: run_alt json_index_def)

lemma run_arrayBuffer:
  "run (arrayBuffer resp) st =
     (case body resp of Bytes bytes \<Rightarrow> Inr bytes | _ \<Rightarrow> Inl EncodingError, st)"
  by (simp add: run_alt arrayBuffer_def)

lemma run_decodeAudioData_async:
  "run (decodeAudioData_async ctx bytes) st =
     (case decodeAudioData ctx bytes of None \<Rightarrow> Inl EncodingError | Some decoded \<Rightarrow> Inr decoded,
      st\<lparr>trace := trace st @ [Decoded bytes]\<rparr>)"
  by (simp add: run_alt decodeAudioData_async_def)

lemma loadRootIndex_async_run: "run (loadRootIndex_async net) st = loadRootIndex net st"
proof (cases "rootIndex st")
  case (Some rootIdx)
  then show ?thesis
    by (simp add: loadRootIndex_async_def loadRootIndex_def run_alt return_def)
next
  case None
  have "run (loadRootIndex_async net) st =
        run (await_call (fetch_async net (baseUrl st @ ''/index.json''))
             (\<lambda>resp. if \<not> ok resp then throw (FetchRootIndexFailed (status resp) (baseUrl st @ ''/index.json''))
                      else await_call (json_index (baseUrl st @ ''/index.json'') resp)
                             (\<lambda>idx st2. return idx (st2\<lparr>rootIndex := Some idx\<rparr>)))) st"
    using None by (simp add: loadRootIndex_async_def run_alt Let_def)
  also have "\<dots> = loadRootIndex net st"
    using None
    by (simp add: run_await_call run_fetch_async run_json_index loadRootIndex_def fetch_def Let_def
        split: option.splits body.splits)
  finally show ?thesis .
qed

lemma loadLibrary_async_run: "run (loadLibrary_async net name) st = loadLibrary net name st"
proof (cases "Map_get (loadedLibraries st) name")
  case (Some loaded)
  then show ?thesis
    by (simp add: loadLibrary_async_def loadLibrary_def run_alt return_def)
next
  case None
  show ?thesis
    using None
    by (simp add: loadLibrary_async_def loadLibrary_def run_alt [of "loadLibrary_async net name"]
          run_alt [of "\<lambda>st. await_call _ _ st"]
          run_await_call [unfolded run_alt [of "await_call _ _"]]
          loadRootIndex_async_run)
       (auto simp: run_alt return_def throw_def await_call_alt run_await_task
             fetch_async_def json_index_def fetch_def Let_def
          split: prod.splits sum.splits option.splits body.splits)
qed


lemma enableLibrary_async_run: "run (enableLibrary_async net name) st = enableLibrary net name st"
  by (simp add: enableLibrary_async_def enableLibrary_def run_await_call loadLibrary_async_run
      split: prod.splits sum.splits)

lemma decodeAndCache_async_run:
  "run (decodeAndCache_async ctx cacheKey bytes) st = decodeAndCache ctx cacheKey bytes st"
  by (simp add: decodeAndCache_async_def decodeAndCache_def run_await_call
        run_decodeAudioData_async Let_def split: option.splits)

lemma fetchSample_async_run:
  "run (fetchSample_async net ctx cacheKey url) st = fetchSample net ctx cacheKey url st"
  by (simp add: fetchSample_async_def fetchSample_def run_await_call run_fetch_async
        run_arrayBuffer decodeAndCache_async_run fetch_def
      split: option.splits body.splits)

lemma decodeAudio_async_run:
  "run (decodeAudio_async net ref presetUrl) st = decodeAudio net ref presetUrl st"
  unfolding run_alt [of "decodeAudio_async net ref presetUrl"] decodeAudio_async_def
    decodeAudio_def Let_def
  by (simp add: return_def throw_def
        fetchSample_async_run [unfolded run_alt] decodeAndCache_async_run [unfolded run_alt]
      split: option.splits AudioReference.splits prod.splits sum.splits)

text \<open>Once started, the task of one audio reference has one outcome.\<close>

lemma fst_decodeAndCache:
  "fst (decodeAndCache ctx cacheKey bytes st) =
     (case decodeAudioData ctx bytes of None \<Rightarrow> Inl EncodingError | Some decoded \<Rightarrow> Inr decoded)"
  by (simp add: decodeAndCache_def Let_def split: option.splits)

lemma decodeAndCache_async_settles:
  "may_settle (fst (decodeAndCache_async ctx cacheKey bytes st)) r \<Longrightarrow>
     r = (case decodeAudioData ctx bytes of None \<Rightarrow> Inl EncodingError | Some decoded \<Rightarrow> Inr decoded)"
  by (auto simp: decodeAndCache_async_def decodeAndCache_def await_call_alt
        decodeAudioData_async_def return_def Let_def
      dest!: may_settle_await_task split: option.splits)

lemma fetchSample_async_settles:
  "may_settle (fst (fetchSample_async net ctx cacheKey url st)) r \<Longrightarrow>
     r = fst (fetchSample net ctx cacheKey url st)"
  by (auto simp: fetchSample_async_def fetchSample_def await_call_alt fetch_async_def fetch_def
        arrayBuffer_def throw_def fst_decodeAndCache
      dest!: may_settle_await_task decodeAndCache_async_settles
      split: option.splits body.splits if_splits)

lemma decodeAudio_async_settles:
  "may_settle (fst (decodeAudio_async net ref presetUrl st)) r \<Longrightarrow>
     r = fst (decodeAudio net ref presetUrl st)"
  unfolding decodeAudio_async_def decodeAudio_def Let_def
  by (auto simp: return_def throw_def fst_decodeAndCache
      dest!: fetchSample_async_settles decodeAndCache_async_settles
      split: option.splits AudioReference.splits prod.splits sum.splits if_splits)

section \<open>Verification: the zones of a sampler\<close>

lemma start_all_snd_foldl:
  "snd (start_all (map f xs) st) = foldl (\<lambda>s x. snd (f x s)) st xs"
  by (induction xs arbitrary: st) (simp_all add: split_beta)

lemma foldl_zip_snd:
  "length is = length zs \<Longrightarrow>
     foldl (\<lambda>s iz. g (snd iz) s) st (zip is zs) = foldl (\<lambda>s z. g z s) st zs"
  by (induction "is" zs arbitrary: st rule: list_induct2) simp_all

lemma decodeZone_snd:
  "snd (decodeZone net presetUrl iz s) = snd (decodeAudio_async net (z_audio (snd iz)) presetUrl s)"
  by (simp add: decodeZone_def await_call_alt)

lemma zone_promise:
  assumes "i < length zs"
  shows "fst (start_all (map (decodeZone net presetUrl) (zip [0..<length zs] zs)) st) ! i =
         fst (decodeZone net presetUrl (i, zs ! i) (zone_start net presetUrl zs st i))"
proof -
  let ?fs = "map (decodeZone net presetUrl) (zip [0..<length zs] zs)"
  have "take i ?fs = map (decodeZone net presetUrl) (zip [0..<i] (take i zs))"
    using assms by (simp add: take_map take_zip min_def)
  then have "snd (start_all (take i ?fs) st) = zone_start net presetUrl zs st i"
    using assms
    by (simp add: start_all_snd_foldl decodeZone_snd zone_start_def
          foldl_zip_snd [where g = "\<lambda>z s. snd (decodeAudio_async net (z_audio z) presetUrl s)"])
  moreover have "?fs ! i = decodeZone net presetUrl (i, zs ! i)"
    using assms by simp
  ultimately show ?thesis
    using start_all_nth [of i ?fs st] assms by simp
qed

lemma decodeZone_settles:
  "may_settle (fst (decodeZone net presetUrl (i, zone) s)) r \<Longrightarrow>
     r = map_sum id (Pair i) (fst (decodeAudio net (z_audio zone) presetUrl s))"
proof -
  assume "may_settle (fst (decodeZone net presetUrl (i, zone) s)) r"
  then have "(\<exists>err. r = Inl err \<and> Inl err = fst (decodeAudio net (z_audio zone) presetUrl s)) \<or>
             (\<exists>x. r = Inr (i, x) \<and> Inr x = fst (decodeAudio net (z_audio zone) presetUrl s))"
    by (auto simp: decodeZone_def await_call_alt return_def
        dest!: may_settle_await_task decodeAudio_async_settles)
  then show ?thesis
    by (cases "fst (decodeAudio net (z_audio zone) presetUrl s)") auto
qed

lemma decodeSamplerZones_run:
  "fst (run (decodeSamplerZones schedule net config presetUrl) st) =
     (case fst (run_task (Promise_all schedule
                  (fst (start_all (map (decodeZone net presetUrl)
                         (zip [0..<length (zones config)] (zones config))) st)))
                (snd (start_all (map (decodeZone net presetUrl)
                         (zip [0..<length (zones config)] (zones config))) st))) of
        Inl err \<Rightarrow> Inl err
      | Inr pairs \<Rightarrow> Inr (map_of pairs))"
  by (simp add: run_alt [of "decodeSamplerZones _ _ _ _"] decodeSamplerZones_def split_beta
        run_await_task split: sum.splits)

lemma decodeSamplerZones_outcome:
  fixes config :: SamplerConfig and schedule net presetUrl st
  defines "zs \<equiv> zones config"
  defines "r \<equiv> fst (run (decodeSamplerZones schedule net config presetUrl) st)"
  shows "(\<exists>i < length zs. \<exists>err. zone_outcome net presetUrl zs st i = Inl err \<and> r = Inl err) \<or>
         (\<exists>m. r = Inr m \<and> dom m = {..< length zs} \<and>
              (\<forall>i < length zs. \<exists>buffer. m i = Some buffer \<and>
                   zone_outcome net presetUrl zs st i = Inr buffer))"
proof -
  let ?ps = "fst (start_all (map (decodeZone net presetUrl) (zip [0..<length zs] zs)) st)"
  let ?s1 = "snd (start_all (map (decodeZone net presetUrl) (zip [0..<length zs] zs)) st)"
  let ?res = "fst (run_task (Promise_all schedule ?ps) ?s1)"
  have r: "r = (case ?res of Inl err \<Rightarrow> Inl err | Inr pairs \<Rightarrow> Inr (map_of pairs))"
    unfolding r_def zs_def by (rule decodeSamplerZones_run)
  have len: "length ?ps = length zs" by simp
  have member: "r' = map_sum id (Pair i) (zone_outcome net presetUrl zs st i)"
    if "i < length zs" "may_settle (?ps ! i) r'" for i r'
    using that decodeZone_settles [of net presetUrl i "zs ! i" "zone_start net presetUrl zs st i" r']
    by (simp add: zone_promise zone_outcome_def)
  have "all_outcome ?ps ?res"
    by (rule Promise_all_outcome [OF run_may_settle])
  then consider
    (rejected) err i where "?res = Inl err" "i < length zs" "may_settle (?ps ! i) (Inl err)"
  | (resolved) xs where "?res = Inr xs" "length xs = length zs"
        "\<forall>i < length zs. may_settle (?ps ! i) (Inr (xs ! i))"
    unfolding all_outcome_def len by blast
  then show ?thesis
  proof cases
    case rejected
    from member [OF rejected(2,3)] have "zone_outcome net presetUrl zs st i = Inl err"
      by (cases "zone_outcome net presetUrl zs st i") simp_all
    with rejected r show ?thesis by auto
  next
    case resolved
    have each: "\<exists>buffer. xs ! i = (i, buffer) \<and> zone_outcome net presetUrl zs st i = Inr buffer"
      if "i < length zs" for i
    proof -
      from resolved(3) that have "may_settle (?ps ! i) (Inr (xs ! i))" by blast
      from member [OF that this] show ?thesis
        by (cases "zone_outcome net presetUrl zs st i") auto
    qed
    have keys: "map fst xs = [0..<length zs]"
    proof (rule nth_equalityI)
      show "length (map fst xs) = length [0..<length zs]" using resolved(2) by simp
    next
      fix i assume "i < length (map fst xs)"
      then have i: "i < length zs" using resolved(2) by simp
      with each [OF i] resolved(2) show "map fst xs ! i = [0..<length zs] ! i" by auto
    qed
    then have dist: "distinct (map fst xs)" by simp
    have "fst ` set xs = set (map fst xs)" by simp
    also have "\<dots> = {..< length zs}" unfolding keys by (simp add: lessThan_atLeast0)
    finally have "dom (map_of xs) = {..< length zs}"
      by (simp add: dom_map_of_conv_image_fst)
    moreover have "\<forall>i < length zs. \<exists>buffer. map_of xs i = Some buffer \<and>
                      zone_outcome net presetUrl zs st i = Inr buffer"
    proof (intro allI impI)
      fix i assume i: "i < length zs"
      from each [OF i] obtain buffer where b: "xs ! i = (i, buffer)"
        "zone_outcome net presetUrl zs st i = Inr buffer" by blast
      from b(1) i resolved(2) have "(i, buffer) \<in> set xs" by (metis nth_mem)
      with dist have "map_of xs i = Some buffer" by simp
      with b(2) show "\<exists>buffer. map_of xs i = Some buffer \<and>
                      zone_outcome net presetUrl zs st i = Inr buffer" by blast
    qed
    ultimately show ?thesis using r resolved(1) by simp
  qed
qed

text \<open>
  Claim C9, for every order in which the zones take their turns: when every zone's
  reference resolves, \<open>decodeSamplerZones\<close> returns the map from each zone (its
  position) to the buffer decoded for it; when some zone's resolution fails, the call
  fails with the error of a failing zone and returns no map at all.
\<close>

theorem decodeSamplerZones_all_or_nothing:
  "((\<forall>i < length (zones config). \<exists>buffer. zone_outcome net presetUrl (zones config) st i = Inr buffer)
      \<longrightarrow> (\<exists>m. fst (run (decodeSamplerZones schedule net config presetUrl) st) = Inr m
                \<and> dom m = {..< length (zones config)}
                \<and> (\<forall>i < length (zones config). \<exists>buffer.
                      m i = Some buffer
                    \<and> zone_outcome net presetUrl (zones config) st i = Inr buffer)))
   \<and> ((\<exists>i < length (zones config). \<exists>err. zone_outcome net presetUrl (zones config) st i = Inl err)
      \<longrightarrow> (\<exists>i < length (zones config). \<exists>err.
              zone_outcome net presetUrl (zones config) st i = Inl err
            \<and> fst (run (decodeSamplerZones schedule net config presetUrl) st) = Inl err))"
proof -
  note out = decodeSamplerZones_outcome [where net = net and presetUrl = presetUrl
      and config = config and st = st and schedule = schedule]
  show ?thesis
  proof (intro conjI impI)
  assume ok: "\<forall>i < length (zones config). \<exists>buffer. zone_outcome net presetUrl (zones config) st i = Inr buffer"
  from out show "\<exists>m. fst (run (decodeSamplerZones schedule net config presetUrl) st) = Inr m
                \<and> dom m = {..< length (zones config)}
                \<and> (\<forall>i < length (zones config). \<exists>buffer.
                      m i = Some buffer
                    \<and> zone_outcome net presetUrl (zones config) st i = Inr buffer)"
  proof
    assume "\<exists>i<length (zones config). \<exists>err.
        zone_outcome net presetUrl (zones config) st i = Inl err \<and>
        fst (run (decodeSamplerZones schedule net config presetUrl) st) = Inl err"
    then obtain i err where "i < length (zones config)"
      "zone_outcome net presetUrl (zones config) st i = Inl err" by blast
    with ok show ?thesis by force
  qed
next
  assume "\<exists>i < length (zones config). \<exists>err. zone_outcome net presetUrl (zones config) st i = Inl err"
  then obtain i err where bad: "i < length (zones config)"
      "zone_outcome net presetUrl (zones config) st i = Inl err" by blast
  from out show "\<exists>i < length (zones config). \<exists>err.
              zone_outcome net presetUrl (zones config) st i = Inl err
            \<and> fst (run (decodeSamplerZones schedule net config presetUrl) st) = Inl err"
  proof
    assume "\<exists>m. fst (run (decodeSamplerZones schedule net config presetUrl) st) = Inr m \<and>
        dom m = {..<length (zones config)} \<and>
        (\<forall>i<length (zones config). \<exists>buffer. m i = Some buffer \<and>
            zone_outcome net presetUrl (zones config) st i = Inr buffer)"
    then obtain m where "\<forall>i<length (zones config). \<exists>buffer. m i = Some buffer \<and>
            zone_outcome net presetUrl (zones config) st i = Inr buffer" by blast
    with bad show ?thesis by force
  qed
  qed
qed

text \<open>The outcomes of the zones of the examples: of the same file twice, of the file
  and the one that is missing, and of two that are missing.\<close>

lemmas sample_defs = zone_outcome_def zone_start_def wavZone_def oggZone_def missingZone_def
  decodeAudio_def decodeAudio_async_def Let_def audioLoader_def setAudioContext_def loader0_def
  new_PresetLoader_def trimTrailingSlash_def LRU_new_def LRU_get_def Map_has_def Map_get_def
  Map_keys_def fetchSample_def fetchSample_async_def await_call_alt fetch_async_def fetch_def
  sampleStore_def ok200_def ok_def decodeAndCache_def hostContext_def

lemma sampleStore_outcomes:
  "zone_outcome sampleStore None [wavZone, wavZone] audioLoader 0
   = Inr \<lparr>numberOfChannels = 1, ab_length = 3, sampleRate = 44100, channelData = [[0, 0, 0]]\<rparr>"
  "zone_outcome sampleStore None [wavZone, wavZone] audioLoader 1
   = Inr \<lparr>numberOfChannels = 1, ab_length = 3, sampleRate = 44100, channelData = [[0, 0, 0]]\<rparr>"
  "zone_outcome sampleStore None [wavZone, oggZone] audioLoader 0
   = Inr \<lparr>numberOfChannels = 1, ab_length = 3, sampleRate = 44100, channelData = [[0, 0, 0]]\<rparr>"
  "zone_outcome sampleStore None [wavZone, oggZone] audioLoader 1
   = Inl (NetworkError ''https://x.org/p/samples/h.ogg'')"
  "zone_outcome sampleStore None [oggZone, missingZone] audioLoader 0
   = Inl (NetworkError ''https://x.org/p/samples/h.ogg'')"
  "zone_outcome sampleStore None [oggZone, missingZone] audioLoader 1
   = Inl (NetworkError ''https://x.org/p/missing.wav'')"
  by (simp_all add: sample_defs)

text \<open>When two zones fail, the error is that of the zone whose rejection comes first in
  time: of the first zone under one schedule, of the second under another.\<close>

lemma rejection_first_in_time:
  "map_sum id (\<lambda>m. map m [0, 1])
     (fst (run (decodeSamplerZones [0, 0, 0, 0, 0, 0, 0, 0] sampleStore
                  \<lparr>zones = [oggZone, missingZone]\<rparr> None) audioLoader))
    = Inl (NetworkError ''https://x.org/p/samples/h.ogg'')"
  "map_sum id (\<lambda>m. map m [0, 1])
     (fst (run (decodeSamplerZones [1, 1, 1, 1, 1, 1, 1, 1] sampleStore
                  \<lparr>zones = [oggZone, missingZone]\<rparr> None) audioLoader))
    = Inl (NetworkError ''https://x.org/p/missing.wav'')"
  by code_simp+

text \<open>The same file in two zones: both are fetched and decoded, and the map has both.
  One hash with two codecs, of which the store has the first: the call fails.\<close>

theorem decodeSamplerZones_all_or_nothing_witness:
  "(\<exists>m. fst (run (decodeSamplerZones [1, 0] sampleStore \<lparr>zones = [wavZone, wavZone]\<rparr> None) audioLoader) = Inr m
        \<and> dom m = {..< 2}
        \<and> m 0 = Some \<lparr>numberOfChannels = 1, ab_length = 3, sampleRate = 44100, channelData = [[0, 0, 0]]\<rparr>
        \<and> m 1 = Some \<lparr>numberOfChannels = 1, ab_length = 3, sampleRate = 44100, channelData = [[0, 0, 0]]\<rparr>)
   \<and> fst (run (decodeSamplerZones [1, 0] sampleStore \<lparr>zones = [wavZone, oggZone]\<rparr> None) audioLoader)
       = Inl (NetworkError ''https://x.org/p/samples/h.ogg'')"
proof -
  let ?buf = "\<lparr>numberOfChannels = 1, ab_length = 3, sampleRate = 44100, channelData = [[0, 0, 0]]\<rparr>"
  let ?two = "\<lparr>zones = [wavZone, wavZone]\<rparr>"
  let ?mixed = "\<lparr>zones = [wavZone, oggZone]\<rparr>"
  have h1: "\<forall>i < length (zones ?two). \<exists>buffer.
      zone_outcome sampleStore None (zones ?two) audioLoader i = Inr buffer"
    using sampleStore_outcomes(1,2) by (simp add: less_Suc_eq)
  from decodeSamplerZones_all_or_nothing [of ?two sampleStore None audioLoader "[1, 0]",
      THEN conjunct1, THEN mp, OF h1]
  obtain m where m: "fst (run (decodeSamplerZones [1, 0] sampleStore ?two None) audioLoader) = Inr m"
    "dom m = {..< length (zones ?two)}"
    "\<forall>i < length (zones ?two). \<exists>buffer. m i = Some buffer \<and>
        zone_outcome sampleStore None (zones ?two) audioLoader i = Inr buffer"
    by blast
  from m(3) sampleStore_outcomes(1) have m0: "m 0 = Some ?buf" by force
  from m(3) sampleStore_outcomes(2) have m1: "m 1 = Some ?buf" by force
  have first: "\<exists>m. fst (run (decodeSamplerZones [1, 0] sampleStore ?two None) audioLoader) = Inr m
        \<and> dom m = {..< 2} \<and> m 0 = Some ?buf \<and> m 1 = Some ?buf"
    using m(1,2) m0 m1 by (intro exI [of _ m]) simp
  have h2: "\<exists>i < length (zones ?mixed). \<exists>err.
      zone_outcome sampleStore None (zones ?mixed) audioLoader i = Inl err"
    using sampleStore_outcomes(4) by (intro exI [of _ 1]) simp
  from decodeSamplerZones_all_or_nothing [of ?mixed sampleStore None audioLoader "[1, 0]",
      THEN conjunct2, THEN mp, OF h2]
  obtain i err where i: "i < length (zones ?mixed)"
    "zone_outcome sampleStore None (zones ?mixed) audioLoader i = Inl err"
    "fst (run (decodeSamplerZones [1, 0] sampleStore ?mixed None) audioLoader) = Inl err"
    by blast
  from i(1) have "i = 0 \<or> i = 1" by auto
  with i(2) sampleStore_outcomes(3,4) have "err = NetworkError ''https://x.org/p/samples/h.ogg''" by auto
  with i(3) first show ?thesis by simp
qed

section \<open>Verification: preloading\<close>









end
